theory Spec2Isabelle
  imports Complex_Main "HOL-Library.Word"
begin

section \<open>Slope analysis: the raster pipeline of \<^verbatim>\<open>src/index.tsx\<close>\<close>

text \<open>
  The two source variants (\<^verbatim>\<open>src/index.tsx\<close> and \<^verbatim>\<open>src/unnamed/part_000\<close>) share the
  same tile arithmetic, the same \<^verbatim>\<open>performTerrainAnalysis\<close> and the same
  \<^verbatim>\<open>handleDownload\<close>; one embedding covers both.

  JavaScript numbers are embedded as mathematical reals: \<^verbatim>\<open>Math.floor\<close> is \<open>floor\<close>,
  \<^verbatim>\<open>Math.atan\<close> is \<open>arctan\<close>, and so on. The reals leave out the rounding to binary64 and
  to the 32 bits of a \<^verbatim>\<open>Float32Array\<close> cell, the infinities and \<^verbatim>\<open>NaN\<close>. Where a property
  turns on one of these, the code in question is embedded a second time with it:
  \<^verbatim>\<open>lng2tile\<close> and \<^verbatim>\<open>tile2lng\<close> with the rounding of every operation (\<open>lng2tile64\<close>,
  \<open>tile2lng64\<close>), the slope loops on the special values as well as on finite numbers
  (\<open>computeSlope_num\<close>). Tile indices are integers, array lengths and pixel coordinates are
  naturals, the cells of a \<^verbatim>\<open>Uint8Array\<close> are 8-bit words.
\<close>

subsection \<open>Constants\<close>

definition TILE_ZOOM :: nat where
  "TILE_ZOOM = 12"

definition TILE_SIZE :: nat where
  "TILE_SIZE = 512"

text \<open>
  One entry of \<^verbatim>\<open>SLOPE_RANGES\<close>. The \<^verbatim>\<open>label\<close> field is only shown in the legend and
  is left out.
\<close>

record slope_range =
  rmax :: real
  color :: string

definition SLOPE_RANGES :: "slope_range list" where
  "SLOPE_RANGES =
    [\<lparr>rmax = 2, color = ''#2ecc71''\<rparr>,
     \<lparr>rmax = 5, color = ''#58d68d''\<rparr>,
     \<lparr>rmax = 9, color = ''#82e0aa''\<rparr>,
     \<lparr>rmax = 15, color = ''#f7dc6f''\<rparr>,
     \<lparr>rmax = 20, color = ''#f1c40f''\<rparr>,
     \<lparr>rmax = 25, color = ''#f39c12''\<rparr>,
     \<lparr>rmax = 30, color = ''#e67e22''\<rparr>,
     \<lparr>rmax = 35, color = ''#d35400''\<rparr>,
     \<lparr>rmax = 45, color = ''#c0392b''\<rparr>,
     \<lparr>rmax = 999, color = ''#922b21''\<rparr>]"

subsection \<open>Tile arithmetic\<close>

text \<open>
  \<^verbatim>\<open>lng2tile\<close>, \<^verbatim>\<open>lat2tile\<close>, \<^verbatim>\<open>tile2lng\<close> and \<^verbatim>\<open>tile2lat\<close>, term by term.
  \<^verbatim>\<open>Math.pow(2, zoom)\<close> is \<open>2 ^ zoom\<close> for the natural zoom levels the program uses.
  For a latitude strictly between \<open>-90\<close> and \<open>90\<close> the argument of the logarithm is
  positive; at the poles and beyond, \<open>lat2tile\<close> is whatever the total functions of HOL
  make of it, which is not what the program computes there.
\<close>

definition lng2tile :: "real \<Rightarrow> nat \<Rightarrow> int" where
  "lng2tile lon zoom = \<lfloor>(lon + 180) / 360 * 2 ^ zoom\<rfloor>"

definition lat2tile :: "real \<Rightarrow> nat \<Rightarrow> int" where
  "lat2tile lat zoom =
     \<lfloor>(1 - ln (tan (lat * pi / 180) + 1 / cos (lat * pi / 180)) / pi) / 2 * 2 ^ zoom\<rfloor>"

definition tile2lng :: "int \<Rightarrow> nat \<Rightarrow> real" where
  "tile2lng x z = real_of_int x / 2 ^ z * 360 - 180"

definition tile2lat :: "int \<Rightarrow> nat \<Rightarrow> real" where
  "tile2lat y z =
     (let n = pi - 2 * pi * real_of_int y / 2 ^ z
      in 180 / pi * arctan (0.5 * (exp n - exp (- n))))"

subsection \<open>Tile arithmetic in binary64\<close>

text \<open>
  The numbers of the program are IEEE 754 binary64 numbers, and each of \<^verbatim>\<open>+\<close>, \<^verbatim>\<open>-\<close>,
  \<^verbatim>\<open>*\<close> and \<^verbatim>\<open>/\<close> yields the exact result rounded to the nearest number with 53
  significant bits, to the one with an even last bit on a tie. \<open>rne\<close> rounds a real to the
  nearest integer, ties to even; \<open>round64\<close> rounds a real to binary64, with \<open>ulp\<close> the
  distance between neighbouring binary64 numbers of the magnitude of \<open>x\<close>. Overflow and
  gradual underflow are left out: the values that occur in the two functions below, for a
  binary64 longitude between \<open>-180\<close> and 180 and a zoom level up to 44, are zero or lie
  between \<open>2\<^sup>-\<^sup>5\<^sup>4\<close> and \<open>2\<^sup>5\<^sup>3\<close>.
\<close>

definition rne :: "real \<Rightarrow> int" where
  "rne r =
     (let f = \<lfloor>r\<rfloor>; d = r - of_int f
      in if d < 1 / 2 then f else if 1 / 2 < d then f + 1 else if even f then f else f + 1)"

definition round64 :: "real \<Rightarrow> real" where
  "round64 x =
     (if x = 0 then 0
      else let e = \<lfloor>log 2 \<bar>x\<bar>\<rfloor>; ulp = 2 powr (of_int e - 52)
           in of_int (rne (x / ulp)) * ulp)"

text \<open>
  \<^verbatim>\<open>lng2tile\<close> and \<^verbatim>\<open>tile2lng\<close> once more, with the rounding of every operation. The
  argument \<open>lon\<close> stands for a binary64 number; \<^verbatim>\<open>Math.pow(2, zoom)\<close> is exact and so is
  \<^verbatim>\<open>Math.floor\<close>. \<open>lng2tile\<close> and \<open>tile2lng\<close> above are these functions without the
  rounding. \<^verbatim>\<open>lat2tile\<close> and \<^verbatim>\<open>tile2lat\<close> go through \<^verbatim>\<open>Math.tan\<close>, \<^verbatim>\<open>Math.cos\<close>,
  \<^verbatim>\<open>Math.log\<close>, \<^verbatim>\<open>Math.atan\<close> and \<^verbatim>\<open>Math.exp\<close>, whose last bit the language leaves to
  the implementation; they are modelled without rounding only.
\<close>

definition lng2tile64 :: "real \<Rightarrow> nat \<Rightarrow> int" where
  "lng2tile64 lon zoom = \<lfloor>round64 (round64 (round64 (lon + 180) / 360) * 2 ^ zoom)\<rfloor>"


subsection \<open>The mosaic\<close>

text \<open>
  The locals of \<^verbatim>\<open>performTerrainAnalysis\<close> that describe the stitched elevation
  raster, gathered in one record: the pixel extent, the row-major sample buffer and the
  geographic bounds of the tile grid.
\<close>

record mosaic =
  mosaicWidth :: nat
  mosaicHeight :: nat
  mosaicData :: "real list"
  mosaicNorth :: real
  mosaicWest :: real
  mosaicSouth :: real
  mosaicEast :: real

definition degPerPixelX :: "mosaic \<Rightarrow> real" where
  "degPerPixelX m = (mosaicEast m - mosaicWest m) / real (mosaicWidth m)"

definition degPerPixelY :: "mosaic \<Rightarrow> real" where
  "degPerPixelY m = (mosaicNorth m - mosaicSouth m) / real (mosaicHeight m)"

definition centerLat :: "mosaic \<Rightarrow> real" where
  "centerLat m = (mosaicNorth m + mosaicSouth m) / 2"

definition metersPerLat :: real where
  "metersPerLat = 111320"

definition metersPerLng :: "mosaic \<Rightarrow> real" where
  "metersPerLng m = 111320 * cos (centerLat m * pi / 180)"

definition cellSizeX :: "mosaic \<Rightarrow> real" where
  "cellSizeX m = degPerPixelX m * metersPerLng m"

definition cellSizeY :: "mosaic \<Rightarrow> real" where
  "cellSizeY m = degPerPixelY m * metersPerLat"

subsection \<open>Classification\<close>

text \<open>
  The \<^verbatim>\<open>for (const range of SLOPE_RANGES)\<close> loop with its \<^verbatim>\<open>break\<close>: the third argument
  is the value of \<^verbatim>\<open>color\<close> on entry.
\<close>

fun classify_loop :: "slope_range list \<Rightarrow> real \<Rightarrow> string \<Rightarrow> string" where
  "classify_loop [] slopeDeg c = c"
| "classify_loop (rng # rest) slopeDeg c =
     (if slopeDeg \<le> rmax rng then color rng else classify_loop rest slopeDeg c)"

definition classify :: "real \<Rightarrow> string" where
  "classify slopeDeg = classify_loop SLOPE_RANGES slopeDeg ''#00000000''"

text \<open>
  Modelled from the spec: \<^verbatim>\<open>chroma(color).rgb()\<close> belongs to the chroma-js library, the
  colour library of section 9 that maps a class colour to its RGB triple. The program only
  passes it strings of the form \<^verbatim>\<open>#rrggbb\<close> or \<^verbatim>\<open>#rrggbbaa\<close>, for which the library
  reads the three leading pairs of hexadecimal digits as red, green and blue.
\<close>

definition hex_digit :: "char \<Rightarrow> nat" where
  "hex_digit c =
     (let n = (of_char c :: nat)
      in if 48 \<le> n \<and> n \<le> 57 then n - 48
         else if 97 \<le> n \<and> n \<le> 102 then n - 87
         else if 65 \<le> n \<and> n \<le> 70 then n - 55
         else 0)"

fun chroma_rgb :: "string \<Rightarrow> nat \<times> nat \<times> nat" where
  "chroma_rgb (h # r1 # r0 # g1 # g0 # b1 # b0 # rest) =
     (16 * hex_digit r1 + hex_digit r0,
      16 * hex_digit g1 + hex_digit g0,
      16 * hex_digit b1 + hex_digit b0)"
| "chroma_rgb s = (0, 0, 0)"

subsection \<open>The slope sweep\<close>

text \<open>
  The body of the two nested \<^verbatim>\<open>for\<close> loops for one pixel, on the pair
  \<open>(slopeData, rgbaData)\<close>. The \<^verbatim>\<open>continue\<close> of the nodata guard is the first branch.
  A write to a typed array is \<open>list_update\<close>; both ignore an index out of range. The four
  reads are in range whenever the loops run and the buffer has \<open>width * height\<close> cells.
\<close>

definition slope_pixel ::
  "mosaic \<Rightarrow> nat \<Rightarrow> nat \<Rightarrow> real list \<times> 8 word list \<Rightarrow> real list \<times> 8 word list" where
  "slope_pixel m y x st =
     (case st of (slopeData, rgbaData) \<Rightarrow>
      let idx = y * mosaicWidth m + x;
          zN = mosaicData m ! ((y - 1) * mosaicWidth m + x);
          zS = mosaicData m ! ((y + 1) * mosaicWidth m + x);
          zE = mosaicData m ! (y * mosaicWidth m + (x + 1));
          zW = mosaicData m ! (y * mosaicWidth m + (x - 1))
      in if zN < - 10000 \<or> zS < - 10000 \<or> zE < - 10000 \<or> zW < - 10000
         then (slopeData[idx := 0], rgbaData)
         else
           let dzdx = (zE - zW) / (2 * cellSizeX m);
               dzdy = (zN - zS) / (2 * cellSizeY m);
               riseRun = sqrt (dzdx * dzdx + dzdy * dzdy);
               slopeRad = arctan riseRun;
               slopeDeg = slopeRad * (180 / pi);
               c = classify slopeDeg;
               (r, g, b) = chroma_rgb c;
               alpha = 210
           in (slopeData[idx := slopeDeg],
               rgbaData[idx * 4 := of_nat r, idx * 4 + 1 := of_nat g,
                        idx * 4 + 2 := of_nat b, idx * 4 + 3 := alpha]))"

text \<open>
  \<^verbatim>\<open>for (let y = 1; y < mosaicHeight - 1; y++) for (let x = 1; x < mosaicWidth - 1; x++)\<close>
  over zero-initialised buffers. With an extent of 0 the JavaScript bound is \<open>-1\<close> and
  the natural-number bound is 0; the loop is empty either way.
\<close>

definition computeSlope :: "mosaic \<Rightarrow> real list \<times> 8 word list" where
  "computeSlope m =
     (let slopeData = replicate (length (mosaicData m)) 0;
          rgbaData = replicate (length (mosaicData m) * 4) 0
      in fold (\<lambda>y. fold (\<lambda>x. slope_pixel m y x) [1..<mosaicWidth m - 1])
           [1..<mosaicHeight m - 1] (slopeData, rgbaData))"

text \<open>The four bytes of pixel \<open>idx\<close> in an RGBA buffer, in the order red, green, blue, alpha.\<close>

definition rgbaAt :: "8 word list \<Rightarrow> nat \<Rightarrow> 8 word list" where
  "rgbaAt a idx = [a ! (idx * 4), a ! (idx * 4 + 1), a ! (idx * 4 + 2), a ! (idx * 4 + 3)]"

subsection \<open>The slope sweep on the numbers of a typed array\<close>

text \<open>
  A \<^verbatim>\<open>Float32Array\<close> holds more than the finite numbers: an elevation sample can be
  \<^verbatim>\<open>NaN\<close> or an infinity, and the sweep above, whose samples are reals, has no place for
  them. \<open>number\<close> adds the three special values to the reals, with the arithmetic and the
  comparisons that IEEE 754 gives them: \<^verbatim>\<open>NaN\<close> propagates through every operation and
  makes every comparison false, the difference of two equal infinities and the product of
  an infinity with zero are \<^verbatim>\<open>NaN\<close>. Finite numbers still compute as reals, without
  rounding, and zero has no sign: a division by zero takes the sign of the dividend.
\<close>

datatype number = Num real | PosInf | NegInf | NaN

fun num_sgn :: "number \<Rightarrow> real" where
  "num_sgn (Num a) = sgn a"
| "num_sgn PosInf = 1"
| "num_sgn NegInf = - 1"
| "num_sgn NaN = 0"

definition inf_of :: "real \<Rightarrow> number" where
  "inf_of s = (if s = 0 then NaN else if 0 < s then PosInf else NegInf)"

fun num_neg :: "number \<Rightarrow> number" where
  "num_neg (Num a) = Num (- a)"
| "num_neg PosInf = NegInf"
| "num_neg NegInf = PosInf"
| "num_neg NaN = NaN"

fun num_add :: "number \<Rightarrow> number \<Rightarrow> number" where
  "num_add (Num a) (Num b) = Num (a + b)"
| "num_add NaN b = NaN"
| "num_add a NaN = NaN"
| "num_add PosInf NegInf = NaN"
| "num_add NegInf PosInf = NaN"
| "num_add PosInf b = PosInf"
| "num_add a PosInf = PosInf"
| "num_add NegInf b = NegInf"
| "num_add a NegInf = NegInf"

definition num_sub :: "number \<Rightarrow> number \<Rightarrow> number" where
  "num_sub a b = num_add a (num_neg b)"

fun num_mul :: "number \<Rightarrow> number \<Rightarrow> number" where
  "num_mul (Num a) (Num b) = Num (a * b)"
| "num_mul NaN b = NaN"
| "num_mul a NaN = NaN"
| "num_mul a b = inf_of (num_sgn a * num_sgn b)"

fun num_div :: "number \<Rightarrow> number \<Rightarrow> number" where
  "num_div (Num a) (Num b) = (if b = 0 then inf_of a else Num (a / b))"
| "num_div NaN b = NaN"
| "num_div a NaN = NaN"
| "num_div (Num a) b = Num 0"
| "num_div a (Num b) = (if b < 0 then num_neg a else a)"
| "num_div a b = NaN"

fun num_sqrt :: "number \<Rightarrow> number" where
  "num_sqrt (Num a) = (if a < 0 then NaN else Num (sqrt a))"
| "num_sqrt PosInf = PosInf"
| "num_sqrt NegInf = NaN"
| "num_sqrt NaN = NaN"

fun num_atan :: "number \<Rightarrow> number" where
  "num_atan (Num a) = Num (arctan a)"
| "num_atan PosInf = Num (pi / 2)"
| "num_atan NegInf = Num (- pi / 2)"
| "num_atan NaN = NaN"

fun num_lt :: "number \<Rightarrow> number \<Rightarrow> bool" where
  "num_lt (Num a) (Num b) \<longleftrightarrow> a < b"
| "num_lt NaN b \<longleftrightarrow> False"
| "num_lt a NaN \<longleftrightarrow> False"
| "num_lt a NegInf \<longleftrightarrow> False"
| "num_lt PosInf b \<longleftrightarrow> False"
| "num_lt a b \<longleftrightarrow> True"

fun num_le :: "number \<Rightarrow> number \<Rightarrow> bool" where
  "num_le (Num a) (Num b) \<longleftrightarrow> a \<le> b"
| "num_le NaN b \<longleftrightarrow> False"
| "num_le a NaN \<longleftrightarrow> False"
| "num_le NegInf b \<longleftrightarrow> True"
| "num_le a PosInf \<longleftrightarrow> True"
| "num_le a b \<longleftrightarrow> False"

text \<open>
  A read of a typed array: out of range it yields \<^verbatim>\<open>undefined\<close>, which compares and
  computes as \<^verbatim>\<open>NaN\<close>.
\<close>

definition f32_get :: "number list \<Rightarrow> nat \<Rightarrow> number" where
  "f32_get a i = (if i < length a then a ! i else NaN)"

text \<open>
  The classification loop and the body of the slope loops once more, line by line as
  above, on these numbers. \<open>m\<close> gives the extent and, through the bounds, the cell sizes;
  \<open>d\<close> is the content of the typed array \<^verbatim>\<open>mosaicData\<close>, and the field \<open>mosaicData\<close> of \<open>m\<close>
  is not read.
\<close>

fun classify_loop_num :: "slope_range list \<Rightarrow> number \<Rightarrow> string \<Rightarrow> string" where
  "classify_loop_num [] slopeDeg c = c"
| "classify_loop_num (rng # rest) slopeDeg c =
     (if num_le slopeDeg (Num (rmax rng)) then color rng else classify_loop_num rest slopeDeg c)"

definition classify_num :: "number \<Rightarrow> string" where
  "classify_num slopeDeg = classify_loop_num SLOPE_RANGES slopeDeg ''#00000000''"

definition slope_pixel_num ::
  "mosaic \<Rightarrow> number list \<Rightarrow> nat \<Rightarrow> nat \<Rightarrow> number list \<times> 8 word list \<Rightarrow> number list \<times> 8 word list" where
  "slope_pixel_num m d y x st =
     (case st of (slopeData, rgbaData) \<Rightarrow>
      let idx = y * mosaicWidth m + x;
          zN = f32_get d ((y - 1) * mosaicWidth m + x);
          zS = f32_get d ((y + 1) * mosaicWidth m + x);
          zE = f32_get d (y * mosaicWidth m + (x + 1));
          zW = f32_get d (y * mosaicWidth m + (x - 1))
      in if num_lt zN (Num (- 10000)) \<or> num_lt zS (Num (- 10000)) \<or>
            num_lt zE (Num (- 10000)) \<or> num_lt zW (Num (- 10000))
         then (slopeData[idx := Num 0], rgbaData)
         else
           let dzdx = num_div (num_sub zE zW) (Num (2 * cellSizeX m));
               dzdy = num_div (num_sub zN zS) (Num (2 * cellSizeY m));
               riseRun = num_sqrt (num_add (num_mul dzdx dzdx) (num_mul dzdy dzdy));
               slopeRad = num_atan riseRun;
               slopeDeg = num_mul slopeRad (Num (180 / pi));
               c = classify_num slopeDeg;
               (r, g, b) = chroma_rgb c;
               alpha = 210
           in (slopeData[idx := slopeDeg],
               rgbaData[idx * 4 := of_nat r, idx * 4 + 1 := of_nat g,
                        idx * 4 + 2 := of_nat b, idx * 4 + 3 := alpha]))"

definition computeSlope_num :: "mosaic \<Rightarrow> number list \<Rightarrow> number list \<times> 8 word list" where
  "computeSlope_num m d =
     (let slopeData = replicate (length d) (Num 0);
          rgbaData = replicate (length d * 4) 0
      in fold (\<lambda>y. fold (\<lambda>x. slope_pixel_num m d y x) [1..<mosaicWidth m - 1])
           [1..<mosaicHeight m - 1] (slopeData, rgbaData))"

subsection \<open>Mosaic assembly\<close>

text \<open>
  The bounding box read from the Leaflet bounds, a tile address, and what a successful
  fetch adds to the address: the first band of the decoded raster and its extent.
\<close>

record bounds =
  north :: real
  south :: real
  east :: real
  west :: real

record tile =
  tx :: int
  ty :: int
  tz :: nat

record tileBuffer = tile +
  tdata :: "real list"
  twidth :: nat
  theight :: nat

datatype error = NoElevationData

text \<open>
  \<^verbatim>\<open>for (let x = xMin; x <= xMax; x++) for (let y = yMin; y <= yMax; y++) push\<close>.
\<close>

definition tilesToFetch :: "int \<Rightarrow> int \<Rightarrow> int \<Rightarrow> int \<Rightarrow> tile list" where
  "tilesToFetch xMin xMax yMin yMax =
     concat (map (\<lambda>x. map (\<lambda>y. \<lparr>tx = x, ty = y, tz = TILE_ZOOM\<rparr>) [yMin..yMax]) [xMin..xMax])"

text \<open>
  One element of the \<^verbatim>\<open>Promise.all\<close>: the network and the GeoTIFF decoder are the
  parameter \<open>fetch\<close>, which yields the samples, width and height of a tile or fails; the
  \<^verbatim>\<open>catch\<close> turns every failure into \<^verbatim>\<open>null\<close>, here \<open>None\<close>.
\<close>

definition fetchTile ::
  "(tile \<Rightarrow> (real list \<times> nat \<times> nat) option) \<Rightarrow> tile \<Rightarrow> tileBuffer option" where
  "fetchTile fetch t =
     (case fetch t of
        None \<Rightarrow> None
      | Some (d, w, h) \<Rightarrow>
          Some \<lparr>tx = tx t, ty = ty t, tz = tz t, tdata = d, twidth = w, theight = h\<rparr>)"

text \<open>A store into a \<^verbatim>\<open>Float32Array\<close>: an index outside the array is ignored.\<close>

definition f32_set :: "real list \<Rightarrow> int \<Rightarrow> real \<Rightarrow> real list" where
  "f32_set a i v = (if 0 \<le> i \<and> i < int (length a) then a[nat i := v] else a)"

text \<open>
  The body of \<^verbatim>\<open>validTiles.forEach\<close>. The read \<^verbatim>\<open>tile.data[r * TILE_SIZE + c]\<close> is
  in range for the 512 by 512 tiles of the data source; the theorems below are stated for
  such tiles.
\<close>

definition fill_tile :: "int \<Rightarrow> int \<Rightarrow> int \<Rightarrow> tileBuffer \<Rightarrow> real list \<Rightarrow> real list" where
  "fill_tile xMin yMin mosaicWidth' tile mosaicData' =
     (let offsetX = (tx tile - xMin) * int TILE_SIZE;
          offsetY = (ty tile - yMin) * int TILE_SIZE
      in fold (\<lambda>r. fold (\<lambda>c md.
                 let v = tdata tile ! (r * TILE_SIZE + c)
                 in f32_set md ((offsetY + int r) * mosaicWidth' + (offsetX + int c)) v)
               [0..<TILE_SIZE])
           [0..<TILE_SIZE] mosaicData')"

text \<open>
  \<^verbatim>\<open>performTerrainAnalysis\<close> up to the mosaic and its bounds. The \<^verbatim>\<open>throw\<close> on an empty
  \<^verbatim>\<open>validTiles\<close> is the \<open>Inl\<close> result. When some tile is valid the tile range is not
  empty, so both extents are positive and the array length is not negative. The primed
  names are the locals \<^verbatim>\<open>mosaicWidth\<close>, \<^verbatim>\<open>mosaicHeight\<close> and \<^verbatim>\<open>mosaicData\<close>.
\<close>

definition assembleMosaic ::
  "(tile \<Rightarrow> (real list \<times> nat \<times> nat) option) \<Rightarrow> bounds \<Rightarrow> error + mosaic" where
  "assembleMosaic fetch b =
     (let xMin = lng2tile (west b) TILE_ZOOM;
          xMax = lng2tile (east b) TILE_ZOOM;
          yMin = lat2tile (north b) TILE_ZOOM;
          yMax = lat2tile (south b) TILE_ZOOM;
          tileBuffers = map (fetchTile fetch) (tilesToFetch xMin xMax yMin yMax);
          validTiles = List.map_filter (\<lambda>t. t) tileBuffers
      in if length validTiles = 0 then Inl NoElevationData
         else
           let mosaicWidth' = (xMax - xMin + 1) * int TILE_SIZE;
               mosaicHeight' = (yMax - yMin + 1) * int TILE_SIZE;
               mosaicData' = fold (fill_tile xMin yMin mosaicWidth') validTiles
                               (replicate (nat (mosaicWidth' * mosaicHeight')) 0)
           in Inr \<lparr>mosaicWidth = nat mosaicWidth', mosaicHeight = nat mosaicHeight',
                   mosaicData = mosaicData',
                   mosaicNorth = tile2lat yMin TILE_ZOOM,
                   mosaicWest = tile2lng xMin TILE_ZOOM,
                   mosaicSouth = tile2lat (yMax + 1) TILE_ZOOM,
                   mosaicEast = tile2lng (xMax + 1) TILE_ZOOM\<rparr>)"

subsection \<open>Clipping to the geometry\<close>

text \<open>
  GeoJSON as the clipping code reads it: a position is a longitude and a latitude, a ring
  is a list of positions, and a feature either has one of the four geometry kinds or has
  no geometry (\<^verbatim>\<open>null\<close>).
\<close>

type_synonym position = "real \<times> real"

datatype geometry =
    Point position
  | LineString "position list"
  | Polygon "position list list"
  | MultiPolygon "position list list list"


text \<open>
  The current path of the 2D context: its subpaths, the most recent first, each with its
  points in drawing order. \<^verbatim>\<open>moveTo\<close> starts a subpath, \<^verbatim>\<open>lineTo\<close> extends the most
  recent one (and acts as \<^verbatim>\<open>moveTo\<close> on an empty path), \<^verbatim>\<open>closePath\<close> closes it and
  starts a new subpath at its first point.
\<close>

type_synonym path = "(real \<times> real) list list"
















subsection \<open>The analysis and the export\<close>

text \<open>
  The canvas once the image has been put on it and the path filled: the image, and the
  path it was filled with under \<^verbatim>\<open>destination-in\<close>.
\<close>

record canvas2d =
  imageData :: "8 word list"
  filledPath :: path

text \<open>
  What \<^verbatim>\<open>setGeoData\<close> stores: the fields \<^verbatim>\<open>width\<close>, \<^verbatim>\<open>height\<close>, \<^verbatim>\<open>north\<close>, \<^verbatim>\<open>west\<close>,
  \<^verbatim>\<open>pixelW\<close>, \<^verbatim>\<open>pixelH\<close>, \<^verbatim>\<open>canvas\<close> and \<^verbatim>\<open>rawSlope\<close>; the first four carry a \<open>g\<close> here
  to keep them apart from the fields of \<open>bounds\<close>.
\<close>

record geoData =
  gwidth :: nat
  gheight :: nat
  gnorth :: real
  gwest :: real
  pixelW :: real
  pixelH :: real
  canvas :: canvas2d
  rawSlope :: "real list"


text \<open>
  \<^verbatim>\<open>Number.prototype.toFixed(digits)\<close> for a number below \<open>10\<^sup>2\<^sup>1\<close> in absolute value:
  the integer nearest to \<open>\<bar>x\<bar> * 10 ^ digits\<close> (the larger one on a tie), written in decimal
  with at least \<open>digits + 1\<close> digits, a point before the last \<open>digits\<close> digits and a minus
  sign for negative \<open>x\<close>.
\<close>

definition digitChar :: "nat \<Rightarrow> char" where
  "digitChar d = ''0123456789'' ! d"

fun digitsOf :: "nat \<Rightarrow> nat \<Rightarrow> string" where
  "digitsOf 0 n = []"
| "digitsOf (Suc k) n = digitsOf k (n div 10) @ [digitChar (n mod 10)]"

function decimal :: "nat \<Rightarrow> string" where
  "decimal n = (if n < 10 then [digitChar n] else decimal (n div 10) @ [digitChar (n mod 10)])"
  by pat_completeness auto
termination
  by (relation "measure (\<lambda>n. n)") auto

declare decimal.simps [simp del]

definition toFixed :: "real \<Rightarrow> nat \<Rightarrow> string" where
  "toFixed x digits =
     (let n = nat \<lfloor>\<bar>x\<bar> * 10 ^ digits + 1 / 2\<rfloor>;
          m = decimal (n div 10 ^ digits) @ (if digits = 0 then [] else CHR ''.'' # digitsOf digits (n mod 10 ^ digits))
      in if x < 0 then CHR ''-'' # m else m)"

text \<open>
  The world file of \<^verbatim>\<open>handleDownload\<close>: the six array elements, then the array joined
  with newlines. The two literal zeros of the array print as \<open>0\<close>.
\<close>

definition ulX :: "geoData \<Rightarrow> real" where
  "ulX g = gwest g + pixelW g / 2"

definition ulY :: "geoData \<Rightarrow> real" where
  "ulY g = gnorth g - pixelH g / 2"

definition tfwLines :: "geoData \<Rightarrow> string list" where
  "tfwLines g =
     [toFixed (pixelW g) 12, ''0'', ''0'', toFixed (- pixelH g) 12,
      toFixed (ulX g) 12, toFixed (ulY g) 12]"

fun joinLines :: "string list \<Rightarrow> string" where
  "joinLines [] = []"
| "joinLines [l] = l"
| "joinLines (l # ls) = l @ CHR 0x0A # joinLines ls"

definition tfwContent :: "geoData \<Rightarrow> string" where
  "tfwContent g = joinLines (tfwLines g)"

subsection \<open>Auxiliary notions for the proofs\<close>

text \<open>
  The tile functions at a real-valued tile coordinate, before \<open>floor\<close> and before the
  restriction to integer indices.
\<close>

definition tile2lat_r :: "real \<Rightarrow> nat \<Rightarrow> real" where
  "tile2lat_r t z = 180 / pi * arctan (sinh (pi - 2 * pi * t / 2 ^ z))"

definition lat2tile_r :: "real \<Rightarrow> nat \<Rightarrow> real" where
  "lat2tile_r lat zoom =
     (1 - ln (tan (lat * pi / 180) + 1 / cos (lat * pi / 180)) / pi) / 2 * 2 ^ zoom"

text \<open>
  The parts of \<open>slope_pixel\<close> by name: the four neighbour samples, the guard, the slope in
  degrees, the bytes written, the index of a pixel, the interior pixels in loop order.
\<close>

definition zN :: "mosaic \<Rightarrow> nat \<Rightarrow> nat \<Rightarrow> real" where
  "zN m y x = mosaicData m ! ((y - 1) * mosaicWidth m + x)"

definition zS :: "mosaic \<Rightarrow> nat \<Rightarrow> nat \<Rightarrow> real" where
  "zS m y x = mosaicData m ! ((y + 1) * mosaicWidth m + x)"

definition zE :: "mosaic \<Rightarrow> nat \<Rightarrow> nat \<Rightarrow> real" where
  "zE m y x = mosaicData m ! (y * mosaicWidth m + (x + 1))"

definition zW :: "mosaic \<Rightarrow> nat \<Rightarrow> nat \<Rightarrow> real" where
  "zW m y x = mosaicData m ! (y * mosaicWidth m + (x - 1))"

definition nodata :: "mosaic \<Rightarrow> nat \<Rightarrow> nat \<Rightarrow> bool" where
  "nodata m y x \<longleftrightarrow>
     mosaicData m ! ((y - 1) * mosaicWidth m + x) < - 10000 \<or>
     mosaicData m ! ((y + 1) * mosaicWidth m + x) < - 10000 \<or>
     mosaicData m ! (y * mosaicWidth m + (x + 1)) < - 10000 \<or>
     mosaicData m ! (y * mosaicWidth m + (x - 1)) < - 10000"

definition pixelSlope :: "mosaic \<Rightarrow> nat \<Rightarrow> nat \<Rightarrow> real" where
  "pixelSlope m y x =
     (let dzdx = (mosaicData m ! (y * mosaicWidth m + (x + 1)) -
                  mosaicData m ! (y * mosaicWidth m + (x - 1))) / (2 * cellSizeX m);
          dzdy = (mosaicData m ! ((y - 1) * mosaicWidth m + x) -
                  mosaicData m ! ((y + 1) * mosaicWidth m + x)) / (2 * cellSizeY m)
      in arctan (sqrt (dzdx * dzdx + dzdy * dzdy)) * (180 / pi))"

definition pixelColor :: "mosaic \<Rightarrow> nat \<Rightarrow> nat \<Rightarrow> 8 word \<times> 8 word \<times> 8 word \<times> 8 word" where
  "pixelColor m y x =
     (case chroma_rgb (classify (pixelSlope m y x)) of
        (r, g, b) \<Rightarrow> (of_nat r, of_nat g, of_nat b, 210))"

definition put4 :: "nat \<Rightarrow> 'a \<times> 'a \<times> 'a \<times> 'a \<Rightarrow> 'a list \<Rightarrow> 'a list" where
  "put4 i c a = (case c of (r, g, b, al) \<Rightarrow> a[i * 4 := r, i * 4 + 1 := g, i * 4 + 2 := b, i * 4 + 3 := al])"

definition pixelIndex :: "mosaic \<Rightarrow> nat \<times> nat \<Rightarrow> nat" where
  "pixelIndex m p = fst p * mosaicWidth m + snd p"

definition interior :: "mosaic \<Rightarrow> (nat \<times> nat) list" where
  "interior m = List.product [1..<mosaicHeight m - 1] [1..<mosaicWidth m - 1]"

text \<open>
  The same parts of \<open>slope_pixel_num\<close>: the four neighbour samples, the guard, the slope
  and the bytes written.
\<close>

definition zN_num :: "mosaic \<Rightarrow> number list \<Rightarrow> nat \<Rightarrow> nat \<Rightarrow> number" where
  "zN_num m d y x = f32_get d ((y - 1) * mosaicWidth m + x)"

definition zS_num :: "mosaic \<Rightarrow> number list \<Rightarrow> nat \<Rightarrow> nat \<Rightarrow> number" where
  "zS_num m d y x = f32_get d ((y + 1) * mosaicWidth m + x)"

definition zE_num :: "mosaic \<Rightarrow> number list \<Rightarrow> nat \<Rightarrow> nat \<Rightarrow> number" where
  "zE_num m d y x = f32_get d (y * mosaicWidth m + (x + 1))"

definition zW_num :: "mosaic \<Rightarrow> number list \<Rightarrow> nat \<Rightarrow> nat \<Rightarrow> number" where
  "zW_num m d y x = f32_get d (y * mosaicWidth m + (x - 1))"

definition nodata_num :: "mosaic \<Rightarrow> number list \<Rightarrow> nat \<Rightarrow> nat \<Rightarrow> bool" where
  "nodata_num m d y x \<longleftrightarrow>
     num_lt (zN_num m d y x) (Num (- 10000)) \<or> num_lt (zS_num m d y x) (Num (- 10000)) \<or>
     num_lt (zE_num m d y x) (Num (- 10000)) \<or> num_lt (zW_num m d y x) (Num (- 10000))"

definition pixelSlope_num :: "mosaic \<Rightarrow> number list \<Rightarrow> nat \<Rightarrow> nat \<Rightarrow> number" where
  "pixelSlope_num m d y x =
     (let dzdx = num_div (num_sub (zE_num m d y x) (zW_num m d y x)) (Num (2 * cellSizeX m));
          dzdy = num_div (num_sub (zN_num m d y x) (zS_num m d y x)) (Num (2 * cellSizeY m))
      in num_mul (num_atan (num_sqrt (num_add (num_mul dzdx dzdx) (num_mul dzdy dzdy))))
           (Num (180 / pi)))"

definition pixelColor_num ::
  "mosaic \<Rightarrow> number list \<Rightarrow> nat \<Rightarrow> nat \<Rightarrow> 8 word \<times> 8 word \<times> 8 word \<times> 8 word" where
  "pixelColor_num m d y x =
     (case chroma_rgb (classify_num (pixelSlope_num m d y x)) of
        (r, g, b) \<Rightarrow> (of_nat r, of_nat g, of_nat b, 210))"

text \<open>
  For the assembly: the cell of the mosaic that receives sample \<open>(r, c)\<close> of tile \<open>t\<close>, the
  tiles of the requested grid, and the list \<^verbatim>\<open>validTiles\<close> of a request.
\<close>

definition tileCell :: "int \<Rightarrow> int \<Rightarrow> nat \<Rightarrow> 'a tile_scheme \<Rightarrow> nat \<Rightarrow> nat \<Rightarrow> nat" where
  "tileCell xMin yMin w t r c =
     (nat (ty t - yMin) * TILE_SIZE + r) * w + (nat (tx t - xMin) * TILE_SIZE + c)"

definition inGrid :: "int \<Rightarrow> int \<Rightarrow> int \<Rightarrow> int \<Rightarrow> 'a tile_scheme \<Rightarrow> bool" where
  "inGrid xMin xMax yMin yMax t \<longleftrightarrow>
     xMin \<le> tx t \<and> tx t \<le> xMax \<and> yMin \<le> ty t \<and> ty t \<le> yMax"

definition validTiles :: "(tile \<Rightarrow> (real list \<times> nat \<times> nat) option) \<Rightarrow> bounds \<Rightarrow> tileBuffer list" where
  "validTiles fetch b =
     List.map_filter (\<lambda>t. t) (map (fetchTile fetch)
       (tilesToFetch (lng2tile (west b) TILE_ZOOM) (lng2tile (east b) TILE_ZOOM)
          (lat2tile (north b) TILE_ZOOM) (lat2tile (south b) TILE_ZOOM)))"





subsection \<open>Sample inputs\<close>

text \<open>
  A flat three-by-three raster at 100 m, and the same raster with a nodata sample north
  of the centre pixel.
\<close>

definition flat3 :: mosaic where
  "flat3 = \<lparr>mosaicWidth = 3, mosaicHeight = 3, mosaicData = replicate 9 100,
     mosaicNorth = 1, mosaicWest = 0, mosaicSouth = - 1, mosaicEast = 1\<rparr>"

definition hole3 :: mosaic where
  "hole3 = \<lparr>mosaicWidth = 3, mosaicHeight = 3,
     mosaicData = [100, - 32768, 100, 100, 100, 100, 100, 100, 100],
     mosaicNorth = 1, mosaicWest = 0, mosaicSouth = - 1, mosaicEast = 1\<rparr>"

text \<open>
  The samples of the flat raster as numbers of a typed array, and the same with \<^verbatim>\<open>NaN\<close>
  north of the centre pixel.
\<close>

definition flat3_num :: "number list" where
  "flat3_num = replicate 9 (Num 100)"

definition nan3 :: "number list" where
  "nan3 = [Num 100, NaN, Num 100, Num 100, Num 100, Num 100, Num 100, Num 100, Num 100]"

text \<open>
  A request over two tiles at the equator of which only the western one is fetched, and
  a fetch that always yields a flat tile at 100 m.
\<close>

definition partialFetch :: "tile \<Rightarrow> (real list \<times> nat \<times> nat) option" where
  "partialFetch t =
     (if tx t = 2048 then Some (replicate (TILE_SIZE * TILE_SIZE) 100, TILE_SIZE, TILE_SIZE)
      else None)"

definition equatorBox :: bounds where
  "equatorBox = \<lparr>north = 0, south = tile2lat_r (4097 / 2) 12, east = 1 / 10, west = 0\<rparr>"








text \<open>Export data with square pixels of a thousandth of a degree.\<close>

definition squareGeo :: geoData where
  "squareGeo = \<lparr>gwidth = 2, gheight = 2, gnorth = 50, gwest = 10, pixelW = 1 / 1000,
     pixelH = 1 / 1000, canvas = \<lparr>imageData = replicate 16 0, filledPath = []\<rparr>,
     rawSlope = replicate 4 0\<rparr>"

section \<open>Supporting lemmas\<close>

subsection \<open>Tile arithmetic: inverses and monotonicity\<close>



lemma lat2tile_as_r: "lat2tile lat z = \<lfloor>lat2tile_r lat z\<rfloor>"
  by (simp add: lat2tile_def lat2tile_r_def)

lemma sec_arctan_sinh: "1 / cos (arctan (sinh (n::real))) = cosh n"
proof -
  have "cos (arctan (sinh n)) = 1 / sqrt (1 + (sinh n)\<^sup>2)"
    by (rule cos_arctan)
  also have "1 + (sinh n)\<^sup>2 = (cosh n)\<^sup>2"
    using cosh_square_eq[of n] by simp
  also have "sqrt ((cosh n)\<^sup>2) = cosh n"
    using cosh_real_pos[of n] by simp
  finally show ?thesis by simp
qed

lemma lat2tile_r_tile2lat_r: "lat2tile_r (tile2lat_r t z) z = t"
proof -
  define n where "n = pi - 2 * pi * t / 2 ^ z"
  have phi: "tile2lat_r t z * pi / 180 = arctan (sinh n)"
    by (simp add: tile2lat_r_def n_def)
  have "tan (arctan (sinh n)) + 1 / cos (arctan (sinh n)) = sinh n + cosh n"
    by (simp only: tan_arctan sec_arctan_sinh)
  also have "\<dots> = exp n"
    by (simp add: sinh_plus_cosh)
  finally have "ln (tan (arctan (sinh n)) + 1 / cos (arctan (sinh n))) = n"
    by simp
  then have "lat2tile_r (tile2lat_r t z) z = (1 - n / pi) / 2 * 2 ^ z"
    unfolding lat2tile_r_def phi by simp
  also have "\<dots> = t"
    by (simp add: n_def field_simps)
  finally show ?thesis .
qed






lemma lng2tile_bracket:
  "tile2lng (lng2tile lon z) z \<le> lon" "lon < tile2lng (lng2tile lon z + 1) z"
proof -
  have p: "(0::real) < 2 ^ z" by simp
  have "real_of_int (lng2tile lon z) \<le> (lon + 180) / 360 * 2 ^ z"
    unfolding lng2tile_def by linarith
  then have "real_of_int (lng2tile lon z) / 2 ^ z \<le> (lon + 180) / 360"
    using p by (simp add: pos_divide_le_eq)
  then show "tile2lng (lng2tile lon z) z \<le> lon" by (simp add: tile2lng_def)
  have "(lon + 180) / 360 * 2 ^ z < real_of_int (lng2tile lon z) + 1"
    unfolding lng2tile_def by linarith
  then have "(lon + 180) / 360 < (real_of_int (lng2tile lon z) + 1) / 2 ^ z"
    using p by (simp add: pos_less_divide_eq)
  then show "lon < tile2lng (lng2tile lon z + 1) z" by (simp add: tile2lng_def)
qed

subsection \<open>Rounding to binary64\<close>

lemma rne_floor: "\<lfloor>r\<rfloor> \<le> rne r"
  by (simp add: rne_def Let_def)

lemma rne_ge: "of_int n \<le> r \<Longrightarrow> n \<le> rne r"
proof -
  assume "of_int n \<le> r"
  then have "n \<le> \<lfloor>r\<rfloor>" by (simp add: le_floor_iff)
  then show ?thesis using rne_floor[of r] by linarith
qed

lemma rne_error: "\<bar>of_int (rne r) - r\<bar> \<le> 1 / 2"
proof -
  have "of_int \<lfloor>r\<rfloor> \<le> r" "r < of_int \<lfloor>r\<rfloor> + 1" by linarith+
  then show ?thesis by (auto simp: rne_def Let_def)
qed

lemma round64_binade:
  assumes "2 powr of_int e \<le> \<bar>x\<bar>" "\<bar>x\<bar> < 2 powr (of_int e + 1)"
  shows "round64 x = of_int (rne (x / 2 powr (of_int e - 52))) * 2 powr (of_int e - 52)"
proof -
  have "0 < 2 powr real_of_int e" by simp
  then have p: "0 < \<bar>x\<bar>" using assms(1) by linarith
  then have "\<lfloor>log 2 \<bar>x\<bar>\<rfloor> = e"
    using assms by (simp add: floor_log_eq_powr_iff)
  then show ?thesis using p by (simp add: round64_def Let_def)
qed

lemma binade_ex:
  fixes x :: real
  assumes "0 < x"
  obtains e :: int where "2 powr of_int e \<le> x" "x < 2 powr (of_int e + 1)"
proof -
  have "\<lfloor>log 2 x\<rfloor> = \<lfloor>log 2 x\<rfloor>" by simp
  then have "2 powr of_int \<lfloor>log 2 x\<rfloor> \<le> x \<and> x < 2 powr (of_int \<lfloor>log 2 x\<rfloor> + 1)"
    using assms floor_log_eq_powr_iff[of x 2 "\<lfloor>log 2 x\<rfloor>"] by simp
  then show ?thesis using that by blast
qed

lemma ulp_eq: "2 powr (real_of_int e - 52) = 2 powr of_int e / 2 ^ 52"
proof -
  have "(2::real) powr 52 = 2 ^ 52" by (simp add: powr_numeral)
  then show ?thesis by (simp add: powr_diff)
qed

lemma round64_error:
  assumes "0 < x"
  shows "\<bar>round64 x - x\<bar> \<le> x / 2 ^ 53"
proof -
  obtain e :: int where b: "2 powr of_int e \<le> x" "x < 2 powr (of_int e + 1)"
    using assms by (rule binade_ex)
  define u where "u = 2 powr (real_of_int e - 52)"
  have u: "0 < u" by (simp add: u_def)
  have r: "round64 x = of_int (rne (x / u)) * u"
    unfolding u_def using b assms by (intro round64_binade) simp_all
  have "\<bar>round64 x - x\<bar> = \<bar>of_int (rne (x / u)) - x / u\<bar> * u"
  proof -
    have "round64 x - x = (of_int (rne (x / u)) - x / u) * u"
      using u by (simp add: r field_simps)
    then show ?thesis using u by (simp add: abs_mult)
  qed
  also have "\<dots> \<le> 1 / 2 * u"
    using rne_error[of "x / u"] u by (intro mult_right_mono) simp_all
  also have "\<dots> \<le> 1 / 2 * (x / 2 ^ 52)"
    using b(1) by (simp add: u_def ulp_eq divide_right_mono)
  finally show ?thesis by simp
qed

lemma round64_nonneg: "0 \<le> x \<Longrightarrow> 0 \<le> round64 x"
proof (cases "x = 0")
  case True
  then show ?thesis by (simp add: round64_def)
next
  case False
  assume "0 \<le> x"
  then have "0 \<le> x / 2 powr (real_of_int \<lfloor>log 2 \<bar>x\<bar>\<rfloor> - 52)" by simp
  then have "0 \<le> rne (x / 2 powr (real_of_int \<lfloor>log 2 \<bar>x\<bar>\<rfloor> - 52))"
    using rne_ge[of 0] by simp
  then show ?thesis using False by (simp add: round64_def Let_def)
qed

lemma round64_floor_dyadic:
  assumes "real k / 2 ^ n \<le> t" "k < 2 ^ 53"
  shows "real k / 2 ^ n \<le> round64 t"
proof (cases "k = 0")
  case True
  then show ?thesis using assms(1) round64_nonneg[of t] by simp
next
  case False
  define a where "a = real k / 2 ^ n"
  have a: "0 < a" using False by (simp add: a_def)
  then have t: "0 < t" using assms(1) by (simp add: a_def)
  obtain e :: int where b: "2 powr of_int e \<le> t" "t < 2 powr (of_int e + 1)"
    using t by (rule binade_ex)
  define u where "u = 2 powr (real_of_int e - 52)"
  have u: "0 < u" by (simp add: u_def)
  have r: "round64 t = of_int (rne (t / u)) * u"
    unfolding u_def using b t by (intro round64_binade) simp_all
  have p52: "2 powr of_int e / u = 2 ^ 52"
    by (simp add: u_def ulp_eq)
  have "\<exists>j::int. a / u \<le> of_int j \<and> of_int j \<le> t / u"
  proof (cases "a < 2 powr of_int e")
    case True
    have "a / u \<le> 2 powr of_int e / u"
      using True u by (simp add: divide_right_mono)
    moreover have "2 powr of_int e / u \<le> t / u"
      using b(1) u by (simp add: divide_right_mono)
    ultimately have "a / u \<le> of_int (2 ^ 52) \<and> of_int (2 ^ 52) \<le> t / u"
      by (simp add: p52)
    then show ?thesis by blast
  next
    case False
    then have "2 powr of_int e \<le> real k / 2 ^ n" by (simp add: a_def)
    also have "\<dots> < 2 ^ 53 / 2 ^ n"
    proof -
      have "real k < 2 ^ 53" using assms(2) by (metis of_nat_less_iff of_nat_numeral of_nat_power)
      then show ?thesis by (simp add: divide_strict_right_mono)
    qed
    also have "\<dots> = 2 powr (53 - real n)"
      by (simp add: powr_diff powr_realpow powr_numeral)
    finally have "real_of_int e < 53 - real n" by simp
    then have en: "e + int n \<le> 52" by linarith
    define j where "j = nat (52 - e - int n)"
    have j: "real j = 52 - real_of_int e - real n" using en by (simp add: j_def)
    have "a / u = real k * 2 powr (- real n) * 2 powr (52 - real_of_int e)"
      by (simp add: a_def u_def powr_minus powr_realpow field_simps powr_diff)
    also have "\<dots> = real k * 2 powr (real j)"
      by (simp add: j powr_add[symmetric] algebra_simps)
    also have "\<dots> = of_int (int k * 2 ^ j)"
      by (simp add: powr_realpow)
    finally have e1: "a / u = of_int (int k * 2 ^ j)" .
    moreover have "a / u \<le> t / u"
      using assms(1) u unfolding a_def by (intro divide_right_mono) simp_all
    ultimately show ?thesis by (metis order_refl)
  qed
  then obtain j :: int where j: "a / u \<le> of_int j" "of_int j \<le> t / u" by blast
  have "j \<le> rne (t / u)" using j(2) by (rule rne_ge)
  then have "real_of_int j \<le> of_int (rne (t / u))" by simp
  then have "a / u \<le> of_int (rne (t / u))" using j(1) by linarith
  then have "a \<le> of_int (rne (t / u)) * u" using u by (simp add: pos_divide_le_eq)
  then show ?thesis by (simp add: r a_def)
qed




lemma round64_upper:
  assumes "0 \<le> x" "x \<le> c"
  shows "round64 x \<le> x + c / 2 ^ 53"
proof (cases "x = 0")
  case True
  then show ?thesis using assms by (simp add: round64_def)
next
  case False
  then have p: "0 < x" using assms(1) by simp
  have "round64 x - x \<le> x / 2 ^ 53"
    using round64_error[OF p] by linarith
  moreover have "x / 2 ^ 53 \<le> c / 2 ^ 53"
    using assms(2) by (simp add: divide_right_mono)
  ultimately show ?thesis by linarith
qed



lemma lng2tile64_ge:
  assumes "k \<le> 2 ^ 44" and "tile2lng (int k) z \<le> lon"
  shows "int k \<le> lng2tile64 lon z"
proof -
  have kb: "360 * k < 2 ^ 53" "k < 2 ^ 53" using assms(1) by simp_all
  have "real (360 * k) / 2 ^ z \<le> lon + 180"
    using assms(2) by (simp add: tile2lng_def mult.commute)
  then have "real (360 * k) / 2 ^ z \<le> round64 (lon + 180)"
    using kb(1) by (rule round64_floor_dyadic)
  then have "real k * 360 / 2 ^ z \<le> round64 (lon + 180)" by (simp add: mult.commute)
  then have "real k / 2 ^ z \<le> round64 (lon + 180) / 360" by simp
  then have "real k / 2 ^ z \<le> round64 (round64 (lon + 180) / 360)"
    using kb(2) by (rule round64_floor_dyadic)
  then have "real k / 2 ^ 0 \<le> round64 (round64 (lon + 180) / 360) * 2 ^ z"
    by (simp add: pos_divide_le_eq)
  then have "real k / 2 ^ 0 \<le> round64 (round64 (round64 (lon + 180) / 360) * 2 ^ z)"
    using kb(2) by (rule round64_floor_dyadic)
  then show ?thesis by (simp add: lng2tile64_def le_floor_iff)
qed

lemma lng2tile64_lt:
  assumes "k \<le> 2 ^ z" and "- 180 \<le> lon" and "lon \<le> tile2lng (int k) z - 1 / 2 ^ 42"
  shows "lng2tile64 lon z < int k"
proof -
  define P where "P = (2::real) ^ z"
  define E where "E = lon + 180"
  have P0: "0 < P" by (simp add: P_def)
  have "real k \<le> real (2 ^ z)" using assms(1) by (simp only: of_nat_le_iff)
  then have kP: "real k \<le> P" by (simp add: P_def)
  have E0: "0 \<le> E" using assms(2) by (simp add: E_def)
  have E2: "E \<le> real k * 360 / P - 1 / 2 ^ 42"
    using assms(3) by (simp add: tile2lng_def E_def P_def)
  have "real k * 360 / P \<le> 360"
    using kP P0 by (simp add: pos_divide_le_eq)
  then have E360: "E \<le> 360" using E2 by simp
  define s where "s = round64 E"
  have s0: "0 \<le> s" unfolding s_def using E0 by (rule round64_nonneg)
  have s2: "s \<le> E + 360 / 2 ^ 53"
    unfolding s_def using E0 E360 by (rule round64_upper)
  define q where "q = s / 360"
  have q0: "0 \<le> q" using s0 by (simp add: q_def)
  have q2: "q \<le> real k / P - 1 / (360 * 2 ^ 42) + 1 / 2 ^ 53"
  proof -
    have "q \<le> (E + 360 / 2 ^ 53) / 360" using s2 by (simp add: q_def)
    also have "\<dots> \<le> (real k * 360 / P - 1 / 2 ^ 42 + 360 / 2 ^ 53) / 360"
    proof (rule divide_right_mono)
      show "E + 360 / 2 ^ 53 \<le> real k * 360 / P - 1 / 2 ^ 42 + 360 / 2 ^ 53"
        using E2 by linarith
    qed simp
    also have "\<dots> = real k / P - 1 / (360 * 2 ^ 42) + 1 / 2 ^ 53"
      by (simp add: field_simps)
    finally show ?thesis .
  qed
  have kP1: "real k / P \<le> 1" using kP P0 by simp
  have q3: "q \<le> 1" using q2 kP1 by simp
  define v where "v = round64 q"
  have v0: "0 \<le> v" unfolding v_def using q0 by (rule round64_nonneg)
  have v2: "v \<le> q + 1 / 2 ^ 53"
    unfolding v_def using q0 q3 by (rule round64_upper)
  define w where "w = v * P"
  have w0: "0 \<le> w" using v0 P0 by (simp add: w_def)
  have "v \<le> real k / P - 1 / (360 * 2 ^ 42) + 2 / 2 ^ 53"
    using v2 q2 by simp
  then have "v * P \<le> (real k / P - 1 / (360 * 2 ^ 42) + 2 / 2 ^ 53) * P"
    using P0 by (intro mult_right_mono) simp_all
  also have "\<dots> = real k - P * (1 / (360 * 2 ^ 42) - 2 / 2 ^ 53)"
    using P0 by (simp add: field_simps)
  finally have w2: "w \<le> real k - P * (1 / (360 * 2 ^ 42) - 2 / 2 ^ 53)"
    by (simp add: w_def)
  have "0 \<le> P * (1 / (360 * 2 ^ 42) - 2 / 2 ^ 53)" using P0 by simp
  then have w3: "w \<le> P" using w2 kP by linarith
  define r where "r = round64 w"
  have "r \<le> w + P / 2 ^ 53"
    unfolding r_def using w0 w3 by (rule round64_upper)
  then have "r \<le> real k - P * (1 / (360 * 2 ^ 42) - 3 / 2 ^ 53)"
    using w2 by (simp add: algebra_simps)
  moreover have "0 < P * (1 / (360 * 2 ^ 42) - 3 / 2 ^ 53)" using P0 by simp
  ultimately have "r < real k" by linarith
  then have "\<lfloor>r\<rfloor> < int k" by (simp add: floor_less_iff)
  moreover have "lng2tile64 lon z = \<lfloor>r\<rfloor>"
    by (simp add: lng2tile64_def r_def w_def v_def q_def s_def E_def P_def)
  ultimately show ?thesis by simp
qed


lemma grid_bound:
  assumes "z \<le> 44" "0 \<le> x" "x < 2 ^ z"
  shows "nat x + 1 \<le> 2 ^ z" "nat x + 1 \<le> 2 ^ 44" "nat x \<le> 2 ^ 44" "nat x \<le> 2 ^ z"
proof -
  have "nat x < nat (2 ^ z)" using assms(2,3) by (simp add: nat_less_eq_zless)
  moreover have "nat ((2::int) ^ z) = 2 ^ z" by (simp add: nat_power_eq)
  ultimately have "nat x < 2 ^ z" by (simp only:)
  then show a: "nat x + 1 \<le> 2 ^ z" by (simp only: Suc_eq_plus1[symmetric] Suc_le_eq)
  have "(2::nat) ^ z \<le> 2 ^ 44" using assms(1) by (intro power_increasing) simp_all
  then show "nat x + 1 \<le> 2 ^ 44" using a by linarith
  then show "nat x \<le> 2 ^ 44" by linarith
  show "nat x \<le> 2 ^ z" using a by linarith
qed

lemma tile2lng_low: "0 \<le> x \<Longrightarrow> - 180 \<le> tile2lng x z"
  by (simp add: tile2lng_def)

lemma lng2tile64_inside:
  assumes z: "z \<le> 44" and x: "0 \<le> x" "x < 2 ^ z"
    and lo: "tile2lng x z \<le> lon" and hi: "lon \<le> tile2lng (x + 1) z - 1 / 2 ^ 42"
  shows "lng2tile64 lon z = x"
proof -
  note g = grid_bound[OF z x]
  have "int (nat x) \<le> lng2tile64 lon z"
    using g(3) lo x(1) by (intro lng2tile64_ge) simp_all
  moreover have "lng2tile64 lon z < int (nat x + 1)"
  proof (rule lng2tile64_lt)
    show "nat x + 1 \<le> 2 ^ z" by (rule g(1))
    show "- 180 \<le> lon" using tile2lng_low[OF x(1), of z] lo by linarith
    show "lon \<le> tile2lng (int (nat x + 1)) z - 1 / 2 ^ 42"
      using hi x(1) by (simp add: add.commute)
  qed
  ultimately show ?thesis using x(1) by simp
qed



lemma lng2tile64_exact:
  assumes "z \<le> 44" and "0 \<le> lng2tile lon z" and "lng2tile lon z < 2 ^ z"
    and "lon \<le> tile2lng (lng2tile lon z + 1) z - 1 / 2 ^ 42"
  shows "lng2tile64 lon z = lng2tile lon z"
  using assms(1-3) lng2tile_bracket(1) assms(4) by (rule lng2tile64_inside)






subsection \<open>Independent writes into an array\<close>

lemma fold_write_miss:
  "(\<And>p. p \<in> set ps \<Longrightarrow> f p \<noteq> i) \<Longrightarrow> fold (\<lambda>p a. a[f p := v p]) ps a ! i = a ! i"
  by (induction ps arbitrary: a) simp_all

lemma fold_write_length [simp]:
  "length (fold (\<lambda>p a. a[f p := v p]) ps a) = length a"
  by (induction ps arbitrary: a) simp_all

lemma fold_write_hit:
  "distinct (map f ps) \<Longrightarrow> p \<in> set ps \<Longrightarrow> f p < length a \<Longrightarrow>
   fold (\<lambda>p a. a[f p := v p]) ps a ! f p = v p"
proof (induction ps arbitrary: a)
  case Nil
  then show ?case by simp
next
  case (Cons q qs)
  show ?case
  proof (cases "q = p")
    case True
    have "\<And>r. r \<in> set qs \<Longrightarrow> f r \<noteq> f p"
      using Cons.prems(1) True by (auto simp: image_iff)
    then have "fold (\<lambda>p a. a[f p := v p]) qs (a[f p := v p]) ! f p = a[f p := v p] ! f p"
      by (rule fold_write_miss)
    then show ?thesis using True Cons.prems(3) by simp
  next
    case False
    then have "p \<in> set qs" using Cons.prems(2) by simp
    moreover have "distinct (map f qs)" using Cons.prems(1) by simp
    ultimately show ?thesis using Cons.IH[of "a[f q := v q]"] Cons.prems(3) by simp
  qed
qed

lemma put4_length [simp]: "length (put4 i c a) = length a"
  by (simp add: put4_def split: prod.splits)

lemma put4_miss: "j div 4 \<noteq> i \<Longrightarrow> put4 i c a ! j = a ! j"
proof -
  assume "j div 4 \<noteq> i"
  then have "j \<noteq> i * 4" "j \<noteq> i * 4 + 1" "j \<noteq> i * 4 + 2" "j \<noteq> i * 4 + 3"
    by auto
  then show ?thesis by (simp add: put4_def split: prod.splits)
qed

lemma put4_hit:
  "i * 4 + 3 < length a \<Longrightarrow> k < 4 \<Longrightarrow>
   put4 i (c0, c1, c2, c3) a ! (i * 4 + k) = [c0, c1, c2, c3] ! k"
proof -
  assume a: "i * 4 + 3 < length a" and "k < 4"
  then consider "k = 0" | "k = 1" | "k = 2" | "k = 3" by linarith
  then show ?thesis using a by cases (simp_all add: put4_def)
qed

lemma fold_put4_length [simp]:
  "length (fold (\<lambda>p a. if nd p then a else put4 (f p) (c p) a) ps a) = length a"
  by (induction ps arbitrary: a) simp_all

lemma fold_put4_miss:
  "(\<And>p. p \<in> set ps \<Longrightarrow> nd p \<or> f p \<noteq> j div 4) \<Longrightarrow>
   fold (\<lambda>p a. if nd p then a else put4 (f p) (c p) a) ps a ! j = a ! j"
proof (induction ps arbitrary: a)
  case Nil
  then show ?case by simp
next
  case (Cons q qs)
  have "nd q \<or> f q \<noteq> j div 4" using Cons.prems by simp
  then have "(if nd q then a else put4 (f q) (c q) a) ! j = a ! j"
    by (auto simp: put4_miss)
  moreover have "fold (\<lambda>p a. if nd p then a else put4 (f p) (c p) a) qs
      (if nd q then a else put4 (f q) (c q) a) ! j = (if nd q then a else put4 (f q) (c q) a) ! j"
    using Cons.prems by (intro Cons.IH) simp
  ultimately show ?case by simp
qed

lemma fold_put4_hit:
  assumes "distinct (map f ps)" "p \<in> set ps" "\<not> nd p" "f p * 4 + 3 < length a" "k < 4"
    and "c p = (c0, c1, c2, c3)"
  shows "fold (\<lambda>p a. if nd p then a else put4 (f p) (c p) a) ps a ! (f p * 4 + k) = [c0, c1, c2, c3] ! k"
  using assms(1,2,4)
proof (induction ps arbitrary: a)
  case Nil
  then show ?case by simp
next
  case (Cons q qs)
  let ?F = "\<lambda>p a. if nd p then a else put4 (f p) (c p) a"
  show ?case
  proof (cases "q = p")
    case True
    have d: "(f p * 4 + k) div 4 = f p" using assms(5) by simp
    have "\<And>r. r \<in> set qs \<Longrightarrow> nd r \<or> f r \<noteq> (f p * 4 + k) div 4"
      using Cons.prems(1) True by (auto simp: image_iff d)
    then have "fold ?F qs (?F p a) ! (f p * 4 + k) = ?F p a ! (f p * 4 + k)"
      by (rule fold_put4_miss)
    also have "\<dots> = [c0, c1, c2, c3] ! k"
      using assms(3,5,6) Cons.prems(3) by (simp add: put4_hit)
    finally show ?thesis using True by simp
  next
    case False
    have "distinct (map f qs)" using Cons.prems(1) by simp
    moreover have "p \<in> set qs" using False Cons.prems(2) by simp
    moreover have "f p * 4 + 3 < length (?F q a)" using Cons.prems(3) by simp
    ultimately have "fold ?F qs (?F q a) ! (f p * 4 + k) = [c0, c1, c2, c3] ! k"
      by (rule Cons.IH)
    then show ?thesis by simp
  qed
qed

subsection \<open>The slope sweep, pixel by pixel\<close>

lemma slope_pixel_split:
  "slope_pixel m y x st =
     ((fst st)[y * mosaicWidth m + x := (if nodata m y x then 0 else pixelSlope m y x)],
      (if nodata m y x then snd st else put4 (y * mosaicWidth m + x) (pixelColor m y x) (snd st)))"
  by (cases st)
    (simp add: slope_pixel_def nodata_def pixelSlope_def pixelColor_def put4_def Let_def
      split: prod.splits)

lemma fold_nested_product:
  "fold (\<lambda>y. fold (\<lambda>x. g y x) xs) ys = fold (\<lambda>p. g (fst p) (snd p)) (List.product ys xs)"
proof (induction ys)
  case Nil
  show ?case by simp
next
  case (Cons y ys)
  have "fold (\<lambda>p. g (fst p) (snd p)) (map (Pair y) xs) = fold (\<lambda>x. g y x) xs"
    by (simp add: fold_map comp_def)
  then show ?case using Cons.IH by simp
qed

lemma fold_slope_pixel_fst:
  "fst (fold (\<lambda>p. slope_pixel m (fst p) (snd p)) ps st) =
   fold (\<lambda>p a. a[pixelIndex m p := (if nodata m (fst p) (snd p) then 0 else pixelSlope m (fst p) (snd p))])
     ps (fst st)"
  by (induction ps arbitrary: st) (simp_all add: slope_pixel_split pixelIndex_def)

lemma fold_slope_pixel_snd:
  "snd (fold (\<lambda>p. slope_pixel m (fst p) (snd p)) ps st) =
   fold (\<lambda>p a. if nodata m (fst p) (snd p) then a
                else put4 (pixelIndex m p) (pixelColor m (fst p) (snd p)) a)
     ps (snd st)"
  by (induction ps arbitrary: st) (simp_all add: slope_pixel_split pixelIndex_def)

lemma computeSlope_fst:
  "fst (computeSlope m) =
   fold (\<lambda>p a. a[pixelIndex m p := (if nodata m (fst p) (snd p) then 0 else pixelSlope m (fst p) (snd p))])
     (interior m) (replicate (length (mosaicData m)) 0)"
  by (simp add: computeSlope_def fold_nested_product fold_slope_pixel_fst interior_def)

lemma computeSlope_snd:
  "snd (computeSlope m) =
   fold (\<lambda>p a. if nodata m (fst p) (snd p) then a
                else put4 (pixelIndex m p) (pixelColor m (fst p) (snd p)) a)
     (interior m) (replicate (length (mosaicData m) * 4) 0)"
  by (simp add: computeSlope_def fold_nested_product fold_slope_pixel_snd interior_def)

lemma pixelIndex_eq_iff:
  assumes "snd p < mosaicWidth m" "snd q < mosaicWidth m"
  shows "pixelIndex m p = pixelIndex m q \<longleftrightarrow> p = q"
proof
  let ?W = "mosaicWidth m"
  assume "pixelIndex m p = pixelIndex m q"
  then have e: "fst p * ?W + snd p = fst q * ?W + snd q"
    by (simp add: pixelIndex_def)
  have dp: "(fst p * ?W + snd p) div ?W = fst p" and mp: "(fst p * ?W + snd p) mod ?W = snd p"
    using assms(1) by simp_all
  have dq: "(fst q * ?W + snd q) div ?W = fst q" and mq: "(fst q * ?W + snd q) mod ?W = snd q"
    using assms(2) by simp_all
  have "fst p = fst q" using dp dq e by (simp only:)
  moreover have "snd p = snd q" using mp mq e by (simp only:)
  ultimately show "p = q" by (rule prod_eqI)
next
  assume "p = q"
  then show "pixelIndex m p = pixelIndex m q" by simp
qed

lemma interior_iff:
  "(y, x) \<in> set (interior m) \<longleftrightarrow>
   0 < y \<and> y < mosaicHeight m - 1 \<and> 0 < x \<and> x < mosaicWidth m - 1"
  by (auto simp: interior_def)

lemma interior_snd_less: "p \<in> set (interior m) \<Longrightarrow> snd p < mosaicWidth m"
proof -
  assume "p \<in> set (interior m)"
  then have "(fst p, snd p) \<in> set (interior m)" by simp
  then have "snd p < mosaicWidth m - 1" by (simp only: interior_iff)
  then show ?thesis by simp
qed

lemma interior_distinct: "distinct (map (pixelIndex m) (interior m))"
proof -
  have "distinct (interior m)"
    by (simp add: interior_def distinct_product)
  moreover have "inj_on (pixelIndex m) (set (interior m))"
  proof (rule inj_onI)
    fix p q
    assume p: "p \<in> set (interior m)" and q: "q \<in> set (interior m)"
      and e: "pixelIndex m p = pixelIndex m q"
    have "snd p < mosaicWidth m" using p by (rule interior_snd_less)
    moreover have "snd q < mosaicWidth m" using q by (rule interior_snd_less)
    ultimately show "p = q" using e by (simp only: pixelIndex_eq_iff)
  qed
  ultimately show ?thesis by (simp add: distinct_map)
qed

lemma pixelIndex_bound:
  assumes "x < mosaicWidth m" "y < mosaicHeight m"
  shows "y * mosaicWidth m + x < mosaicWidth m * mosaicHeight m"
proof -
  have "y * mosaicWidth m + x < (y + 1) * mosaicWidth m" using assms(1) by simp
  also have "\<dots> \<le> mosaicHeight m * mosaicWidth m"
    using assms(2) by (intro mult_le_mono1) simp
  finally show ?thesis by (simp add: mult.commute)
qed

lemma computeSlope_length:
  "length (fst (computeSlope m)) = length (mosaicData m)"
  "length (snd (computeSlope m)) = length (mosaicData m) * 4"
  by (simp_all add: computeSlope_fst computeSlope_snd)

lemma slope_at_interior:
  assumes "0 < y" "y < mosaicHeight m - 1" "0 < x" "x < mosaicWidth m - 1"
    and "length (mosaicData m) = mosaicWidth m * mosaicHeight m"
  shows "fst (computeSlope m) ! (y * mosaicWidth m + x) =
         (if nodata m y x then 0 else pixelSlope m y x)"
proof -
  have "(y, x) \<in> set (interior m)" using assms(1-4) by (simp add: interior_iff)
  moreover have "pixelIndex m (y, x) < length (replicate (length (mosaicData m)) (0::real))"
    using pixelIndex_bound[of x m y] assms by (simp add: pixelIndex_def)
  ultimately show ?thesis
    unfolding computeSlope_fst
    using fold_write_hit[OF interior_distinct, of "(y, x)" m "replicate (length (mosaicData m)) 0"
        "\<lambda>p. if nodata m (fst p) (snd p) then 0 else pixelSlope m (fst p) (snd p)"]
    by (simp add: pixelIndex_def)
qed

lemma rgba_at_interior:
  assumes "0 < y" "y < mosaicHeight m - 1" "0 < x" "x < mosaicWidth m - 1"
    and "length (mosaicData m) = mosaicWidth m * mosaicHeight m"
    and "\<not> nodata m y x" "k < 4" "pixelColor m y x = (c0, c1, c2, c3)"
  shows "snd (computeSlope m) ! ((y * mosaicWidth m + x) * 4 + k) = [c0, c1, c2, c3] ! k"
proof -
  have i: "(y, x) \<in> set (interior m)" using assms(1-4) by (simp add: interior_iff)
  have "pixelIndex m (y, x) < mosaicWidth m * mosaicHeight m"
    using pixelIndex_bound[of x m y] assms by (simp add: pixelIndex_def)
  then have l: "pixelIndex m (y, x) * 4 + 3 < length (replicate (length (mosaicData m) * 4) (0::8 word))"
    using assms(5) by simp
  show ?thesis
    unfolding computeSlope_snd
    using fold_put4_hit[where f = "pixelIndex m" and ps = "interior m" and p = "(y, x)"
        and nd = "\<lambda>p. nodata m (fst p) (snd p)" and c = "\<lambda>p. pixelColor m (fst p) (snd p)"
        and k = k and ?c0.0 = c0 and ?c1.0 = c1 and ?c2.0 = c2 and ?c3.0 = c3,
        OF interior_distinct i _ l assms(7)] assms(6,8)
    by (simp add: pixelIndex_def)
qed

lemma rgba_untouched:
  assumes "x < mosaicWidth m" "y < mosaicHeight m"
    and "length (mosaicData m) = mosaicWidth m * mosaicHeight m"
    and "(y, x) \<in> set (interior m) \<Longrightarrow> nodata m y x" "k < 4"
  shows "snd (computeSlope m) ! ((y * mosaicWidth m + x) * 4 + k) = 0"
proof -
  let ?j = "(y * mosaicWidth m + x) * 4 + k"
  have d: "?j div 4 = pixelIndex m (y, x)" using assms(5) by (simp add: pixelIndex_def)
  have "\<And>p. p \<in> set (interior m) \<Longrightarrow> nodata m (fst p) (snd p) \<or> pixelIndex m p \<noteq> ?j div 4"
  proof -
    fix p assume p: "p \<in> set (interior m)"
    show "nodata m (fst p) (snd p) \<or> pixelIndex m p \<noteq> ?j div 4"
    proof (cases "pixelIndex m p = pixelIndex m (y, x)")
      case True
      have "snd p < mosaicWidth m" using p by (rule interior_snd_less)
      then have "p = (y, x)" using True assms(1) pixelIndex_eq_iff[of p m "(y, x)"] by simp
      then show ?thesis using p assms(4) by simp
    next
      case False
      then show ?thesis using d by simp
    qed
  qed
  then have "snd (computeSlope m) ! ?j = replicate (length (mosaicData m) * 4) 0 ! ?j"
    unfolding computeSlope_snd by (rule fold_put4_miss)
  moreover have "?j < length (mosaicData m) * 4"
    using pixelIndex_bound[OF assms(1,2)] assms(3,5) by simp
  ultimately show ?thesis by simp
qed

lemma slope_at_border:
  assumes "x < mosaicWidth m" "y < mosaicHeight m"
    and "length (mosaicData m) = mosaicWidth m * mosaicHeight m"
    and "(y, x) \<notin> set (interior m)"
  shows "fst (computeSlope m) ! (y * mosaicWidth m + x) = 0"
proof -
  have "\<And>p. p \<in> set (interior m) \<Longrightarrow> pixelIndex m p \<noteq> y * mosaicWidth m + x"
  proof
    fix p assume p: "p \<in> set (interior m)" and e: "pixelIndex m p = y * mosaicWidth m + x"
    have "snd p < mosaicWidth m" using p by (rule interior_snd_less)
    then have "p = (y, x)"
      using e assms(1) pixelIndex_eq_iff[of p m "(y, x)"] by (simp add: pixelIndex_def)
    then show False using p assms(4) by simp
  qed
  then have "fst (computeSlope m) ! (y * mosaicWidth m + x) =
      replicate (length (mosaicData m)) 0 ! (y * mosaicWidth m + x)"
    unfolding computeSlope_fst by (rule fold_write_miss)
  then show ?thesis using pixelIndex_bound[OF assms(1,2)] assms(3) by simp
qed

lemma rgbaAt_untouched:
  assumes "x < mosaicWidth m" "y < mosaicHeight m"
    and "length (mosaicData m) = mosaicWidth m * mosaicHeight m"
    and "(y, x) \<in> set (interior m) \<Longrightarrow> nodata m y x"
  shows "rgbaAt (snd (computeSlope m)) (y * mosaicWidth m + x) = [0, 0, 0, 0]"
  using rgba_untouched[OF assms(1-3), of 0] rgba_untouched[OF assms(1-3), of 1]
    rgba_untouched[OF assms(1-3), of 2] rgba_untouched[OF assms(1-3), of 3] assms(4)
  by (simp add: rgbaAt_def)

lemma rgbaAt_interior:
  assumes "0 < y" "y < mosaicHeight m - 1" "0 < x" "x < mosaicWidth m - 1"
    and "length (mosaicData m) = mosaicWidth m * mosaicHeight m"
    and "\<not> nodata m y x"
  shows "rgbaAt (snd (computeSlope m)) (y * mosaicWidth m + x) =
         (case pixelColor m y x of (c0, c1, c2, c3) \<Rightarrow> [c0, c1, c2, c3])"
proof -
  obtain c0 c1 c2 c3 where c: "pixelColor m y x = (c0, c1, c2, c3)"
    by (cases "pixelColor m y x") auto
  show ?thesis
    using rgba_at_interior[OF assms(1-6) _ c, of 0] rgba_at_interior[OF assms(1-6) _ c, of 1]
      rgba_at_interior[OF assms(1-6) _ c, of 2] rgba_at_interior[OF assms(1-6) _ c, of 3]
    by (simp add: rgbaAt_def c)
qed

lemma nodata_iff:
  "nodata m y x \<longleftrightarrow>
   zN m y x < - 10000 \<or> zS m y x < - 10000 \<or> zE m y x < - 10000 \<or> zW m y x < - 10000"
  by (simp add: nodata_def zN_def zS_def zE_def zW_def)

lemma pixelSlope_eq:
  "pixelSlope m y x =
   arctan (sqrt (((zE m y x - zW m y x) / (2 * cellSizeX m))\<^sup>2 +
                 ((zN m y x - zS m y x) / (2 * cellSizeY m))\<^sup>2)) * 180 / pi"
  by (simp add: pixelSlope_def zN_def zS_def zE_def zW_def Let_def power2_eq_square)

lemma pixelSlope_range: "0 \<le> pixelSlope m y x" "pixelSlope m y x < 90"
proof -
  define r where "r = sqrt (((zE m y x - zW m y x) / (2 * cellSizeX m))\<^sup>2 +
                 ((zN m y x - zS m y x) / (2 * cellSizeY m))\<^sup>2)"
  have r: "0 \<le> r" by (simp add: r_def)
  have e: "pixelSlope m y x = arctan r * (180 / pi)"
    by (simp add: pixelSlope_eq r_def)
  have "0 \<le> arctan r" using r by (simp add: zero_le_arctan_iff)
  then show "0 \<le> pixelSlope m y x" by (simp add: e)
  have "arctan r < pi / 2" by (rule arctan_ubound)
  then have "arctan r * (180 / pi) < pi / 2 * (180 / pi)"
    by (intro mult_strict_right_mono) simp_all
  then show "pixelSlope m y x < 90" by (simp add: e)
qed

lemma classify_loop_first:
  assumes "i < length rs" "s \<le> rmax (rs ! i)" "\<forall>j<i. rmax (rs ! j) < s"
  shows "classify_loop rs s c = color (rs ! i)"
  using assms
proof (induction rs arbitrary: i)
  case Nil
  then show ?case by simp
next
  case (Cons r rs)
  show ?case
  proof (cases i)
    case 0
    then show ?thesis using Cons.prems(2) by simp
  next
    case (Suc k)
    have "rmax r < s" using Cons.prems(3) Suc by auto
    moreover have "classify_loop rs s c = color (rs ! k)"
    proof (rule Cons.IH)
      show "k < length rs" using Cons.prems(1) Suc by simp
      show "s \<le> rmax (rs ! k)" using Cons.prems(2) Suc by simp
      show "\<forall>j<k. rmax (rs ! j) < s" using Cons.prems(3) Suc by auto
    qed
    ultimately show ?thesis using Suc by simp
  qed
qed

lemma classify_loop_hit:
  assumes "s \<le> rmax (last rs)" "rs \<noteq> []"
  shows "\<exists>i<length rs. classify_loop rs s c = color (rs ! i)"
  using assms
proof (induction rs)
  case Nil
  then show ?case by simp
next
  case (Cons r rs)
  show ?case
  proof (cases "s \<le> rmax r")
    case True
    then have "classify_loop (r # rs) s c = color ((r # rs) ! 0)" by simp
    then show ?thesis by blast
  next
    case False
    then have ne: "rs \<noteq> []" using Cons.prems(1) by auto
    then have "s \<le> rmax (last rs)" using Cons.prems(1) by simp
    then obtain i where "i < length rs" "classify_loop rs s c = color (rs ! i)"
      using Cons.IH ne by blast
    then have "Suc i < length (r # rs)" "classify_loop (r # rs) s c = color ((r # rs) ! Suc i)"
      using False by simp_all
    then show ?thesis by blast
  qed
qed

lemma SLOPE_RANGES_colors:
  "i < length SLOPE_RANGES \<Longrightarrow> color (SLOPE_RANGES ! i) \<noteq> ''#00000000''"
  by (simp add: SLOPE_RANGES_def nth_Cons' )

lemma classify_0: "classify 0 = ''#2ecc71''"
  by (simp add: classify_def SLOPE_RANGES_def)

lemma neighbours_in_range:
  assumes "0 < y" "y < mosaicHeight m - 1" "0 < x" "x < mosaicWidth m - 1"
  shows "(y - 1) * mosaicWidth m + x < mosaicWidth m * mosaicHeight m"
    "(y + 1) * mosaicWidth m + x < mosaicWidth m * mosaicHeight m"
    "y * mosaicWidth m + (x + 1) < mosaicWidth m * mosaicHeight m"
    "y * mosaicWidth m + (x - 1) < mosaicWidth m * mosaicHeight m"
proof -
  have x: "x < mosaicWidth m" "x + 1 < mosaicWidth m" "x - 1 < mosaicWidth m"
    using assms(4) by simp_all
  have y: "y < mosaicHeight m" "y + 1 < mosaicHeight m" "y - 1 < mosaicHeight m"
    using assms(2) by simp_all
  show "(y - 1) * mosaicWidth m + x < mosaicWidth m * mosaicHeight m"
    using x(1) y(3) by (rule pixelIndex_bound)
  show "(y + 1) * mosaicWidth m + x < mosaicWidth m * mosaicHeight m"
    using x(1) y(2) by (rule pixelIndex_bound)
  show "y * mosaicWidth m + (x + 1) < mosaicWidth m * mosaicHeight m"
    using x(2) y(1) by (rule pixelIndex_bound)
  show "y * mosaicWidth m + (x - 1) < mosaicWidth m * mosaicHeight m"
    using x(3) y(1) by (rule pixelIndex_bound)
qed

lemma flat_pixelSlope:
  assumes "0 < y" "y < mosaicHeight m - 1" "0 < x" "x < mosaicWidth m - 1"
    and "length (mosaicData m) = mosaicWidth m * mosaicHeight m"
    and "\<forall>i<length (mosaicData m). mosaicData m ! i = c"
  shows "pixelSlope m y x = 0"
proof -
  have "zN m y x = c" "zS m y x = c" "zE m y x = c" "zW m y x = c"
    using neighbours_in_range[OF assms(1-4)] assms(5,6)
    by (simp_all add: zN_def zS_def zE_def zW_def)
  then show ?thesis by (simp add: pixelSlope_eq)
qed

lemma SLOPE_RANGES_rmax: "map rmax SLOPE_RANGES = [2, 5, 9, 15, 20, 25, 30, 35, 45, 999]"
  by (simp add: SLOPE_RANGES_def)

lemma flat3_facts:
  "length (mosaicData flat3) = mosaicWidth flat3 * mosaicHeight flat3"
  "1 < mosaicHeight flat3 - 1" "1 < mosaicWidth flat3 - 1"
  "zN flat3 1 1 = 100" "zS flat3 1 1 = 100" "zE flat3 1 1 = 100" "zW flat3 1 1 = 100"
  "cellSizeX flat3 \<noteq> 0" "cellSizeY flat3 \<noteq> 0"
  by (simp_all add: flat3_def zN_def zS_def zE_def zW_def cellSizeX_def cellSizeY_def
      degPerPixelX_def degPerPixelY_def metersPerLng_def metersPerLat_def centerLat_def)

lemma flat3_slope: "fst (computeSlope flat3) ! (1 * mosaicWidth flat3 + 1) = 0"
proof -
  have "\<not> nodata flat3 1 1" using flat3_facts(4-7) by (simp add: nodata_iff)
  then have "fst (computeSlope flat3) ! (1 * mosaicWidth flat3 + 1) = pixelSlope flat3 1 1"
    using slope_at_interior[of 1 flat3 1] flat3_facts(1-3) by simp
  then show ?thesis using flat3_facts(4-7) by (simp add: pixelSlope_eq)
qed

subsection \<open>The slope sweep on the numbers of a typed array\<close>

lemma slope_pixel_num_split:
  "slope_pixel_num m d y x st =
     ((fst st)[y * mosaicWidth m + x := (if nodata_num m d y x then Num 0 else pixelSlope_num m d y x)],
      (if nodata_num m d y x then snd st
       else put4 (y * mosaicWidth m + x) (pixelColor_num m d y x) (snd st)))"
  by (cases st)
    (simp add: slope_pixel_num_def nodata_num_def pixelSlope_num_def pixelColor_num_def put4_def
      zN_num_def zS_num_def zE_num_def zW_num_def Let_def split: prod.splits)

lemma fold_slope_pixel_num_fst:
  "fst (fold (\<lambda>p. slope_pixel_num m d (fst p) (snd p)) ps st) =
   fold (\<lambda>p a. a[pixelIndex m p :=
       (if nodata_num m d (fst p) (snd p) then Num 0 else pixelSlope_num m d (fst p) (snd p))])
     ps (fst st)"
  by (induction ps arbitrary: st) (simp_all add: slope_pixel_num_split pixelIndex_def)

lemma fold_slope_pixel_num_snd:
  "snd (fold (\<lambda>p. slope_pixel_num m d (fst p) (snd p)) ps st) =
   fold (\<lambda>p a. if nodata_num m d (fst p) (snd p) then a
                else put4 (pixelIndex m p) (pixelColor_num m d (fst p) (snd p)) a)
     ps (snd st)"
  by (induction ps arbitrary: st) (simp_all add: slope_pixel_num_split pixelIndex_def)

lemma computeSlope_num_fst:
  "fst (computeSlope_num m d) =
   fold (\<lambda>p a. a[pixelIndex m p :=
       (if nodata_num m d (fst p) (snd p) then Num 0 else pixelSlope_num m d (fst p) (snd p))])
     (interior m) (replicate (length d) (Num 0))"
  by (simp add: computeSlope_num_def fold_nested_product fold_slope_pixel_num_fst interior_def)

lemma computeSlope_num_snd:
  "snd (computeSlope_num m d) =
   fold (\<lambda>p a. if nodata_num m d (fst p) (snd p) then a
                else put4 (pixelIndex m p) (pixelColor_num m d (fst p) (snd p)) a)
     (interior m) (replicate (length d * 4) 0)"
  by (simp add: computeSlope_num_def fold_nested_product fold_slope_pixel_num_snd interior_def)

lemma slope_num_at_interior:
  assumes "0 < y" "y < mosaicHeight m - 1" "0 < x" "x < mosaicWidth m - 1"
    and "length d = mosaicWidth m * mosaicHeight m"
  shows "fst (computeSlope_num m d) ! (y * mosaicWidth m + x) =
         (if nodata_num m d y x then Num 0 else pixelSlope_num m d y x)"
proof -
  have "(y, x) \<in> set (interior m)" using assms(1-4) by (simp add: interior_iff)
  moreover have "pixelIndex m (y, x) < length (replicate (length d) (Num 0))"
    using pixelIndex_bound[of x m y] assms by (simp add: pixelIndex_def)
  ultimately show ?thesis
    unfolding computeSlope_num_fst
    using fold_write_hit[OF interior_distinct, of "(y, x)" m "replicate (length d) (Num 0)"
        "\<lambda>p. if nodata_num m d (fst p) (snd p) then Num 0 else pixelSlope_num m d (fst p) (snd p)"]
    by (simp add: pixelIndex_def)
qed

lemma rgba_num_at_interior:
  assumes "0 < y" "y < mosaicHeight m - 1" "0 < x" "x < mosaicWidth m - 1"
    and "length d = mosaicWidth m * mosaicHeight m"
    and "\<not> nodata_num m d y x" "k < 4" "pixelColor_num m d y x = (c0, c1, c2, c3)"
  shows "snd (computeSlope_num m d) ! ((y * mosaicWidth m + x) * 4 + k) = [c0, c1, c2, c3] ! k"
proof -
  have i: "(y, x) \<in> set (interior m)" using assms(1-4) by (simp add: interior_iff)
  have "pixelIndex m (y, x) < mosaicWidth m * mosaicHeight m"
    using pixelIndex_bound[of x m y] assms by (simp add: pixelIndex_def)
  then have l: "pixelIndex m (y, x) * 4 + 3 < length (replicate (length d * 4) (0::8 word))"
    using assms(5) by simp
  show ?thesis
    unfolding computeSlope_num_snd
    using fold_put4_hit[where f = "pixelIndex m" and ps = "interior m" and p = "(y, x)"
        and nd = "\<lambda>p. nodata_num m d (fst p) (snd p)"
        and c = "\<lambda>p. pixelColor_num m d (fst p) (snd p)"
        and k = k and ?c0.0 = c0 and ?c1.0 = c1 and ?c2.0 = c2 and ?c3.0 = c3,
        OF interior_distinct i _ l assms(7)] assms(6,8)
    by (simp add: pixelIndex_def)
qed

lemma rgbaAt_num_interior:
  assumes "0 < y" "y < mosaicHeight m - 1" "0 < x" "x < mosaicWidth m - 1"
    and "length d = mosaicWidth m * mosaicHeight m"
    and "\<not> nodata_num m d y x"
  shows "rgbaAt (snd (computeSlope_num m d)) (y * mosaicWidth m + x) =
         (case pixelColor_num m d y x of (c0, c1, c2, c3) \<Rightarrow> [c0, c1, c2, c3])"
proof -
  obtain c0 c1 c2 c3 where c: "pixelColor_num m d y x = (c0, c1, c2, c3)"
    by (cases "pixelColor_num m d y x") auto
  show ?thesis
    using rgba_num_at_interior[OF assms(1-6) _ c, of 0] rgba_num_at_interior[OF assms(1-6) _ c, of 1]
      rgba_num_at_interior[OF assms(1-6) _ c, of 2] rgba_num_at_interior[OF assms(1-6) _ c, of 3]
    by (simp add: rgbaAt_def c)
qed

lemma classify_loop_num_Num: "classify_loop_num rs (Num s) c = classify_loop rs s c"
  by (induction rs) simp_all

lemma classify_num_Num: "classify_num (Num s) = classify s"
  by (simp add: classify_num_def classify_def classify_loop_num_Num)

lemma classify_loop_num_NaN: "classify_loop_num rs NaN c = c"
  by (induction rs) simp_all

lemma classify_num_NaN: "classify_num NaN = ''#00000000''"
  by (simp add: classify_num_def classify_loop_num_NaN)

lemma pixelSlope_num_finite:
  assumes "zN_num m d y x = Num n" "zS_num m d y x = Num s"
    and "zE_num m d y x = Num e" "zW_num m d y x = Num w"
    and "cellSizeX m \<noteq> 0" "cellSizeY m \<noteq> 0"
  shows "pixelSlope_num m d y x =
         Num (arctan (sqrt (((e - w) / (2 * cellSizeX m))\<^sup>2 + ((n - s) / (2 * cellSizeY m))\<^sup>2)) *
              (180 / pi))"
proof -
  have "\<not> ((e - w) / (2 * cellSizeX m) * ((e - w) / (2 * cellSizeX m)) +
      (n - s) / (2 * cellSizeY m) * ((n - s) / (2 * cellSizeY m)) < 0)"
    by (simp add: not_less)
  then show ?thesis
    using assms(5,6)
    by (simp add: pixelSlope_num_def assms(1-4) num_sub_def Let_def power2_eq_square)
qed

lemma slope_degrees_range:
  assumes "0 \<le> r"
  shows "0 \<le> arctan r * (180 / pi)" "arctan r * (180 / pi) < 90"
proof -
  have "0 \<le> arctan r" using assms by (simp add: zero_le_arctan_iff)
  then show "0 \<le> arctan r * (180 / pi)" by simp
  have "arctan r < pi / 2" by (rule arctan_ubound)
  then have "arctan r * (180 / pi) < pi / 2 * (180 / pi)"
    by (intro mult_strict_right_mono) simp_all
  then show "arctan r * (180 / pi) < 90" by simp
qed

lemma flat3_num_facts:
  "length flat3_num = mosaicWidth flat3 * mosaicHeight flat3"
  "zN_num flat3 flat3_num 1 1 = Num 100" "zS_num flat3 flat3_num 1 1 = Num 100"
  "zE_num flat3 flat3_num 1 1 = Num 100" "zW_num flat3 flat3_num 1 1 = Num 100"
  by (simp_all add: flat3_def flat3_num_def zN_num_def zS_num_def zE_num_def zW_num_def f32_get_def)

lemma nan3_facts:
  "length nan3 = mosaicWidth flat3 * mosaicHeight flat3"
  "zN_num flat3 nan3 1 1 = NaN" "zS_num flat3 nan3 1 1 = Num 100"
  "zE_num flat3 nan3 1 1 = Num 100" "zW_num flat3 nan3 1 1 = Num 100"
  by (simp_all add: flat3_def nan3_def zN_num_def zS_num_def zE_num_def zW_num_def f32_get_def)

lemma fold_write_map:
  assumes "\<And>p. p \<in> set ps \<Longrightarrow> g p = h (v p)"
  shows "fold (\<lambda>p a. a[f p := g p]) ps (map h a) = map h (fold (\<lambda>p a. a[f p := v p]) ps a)"
  using assms
proof (induction ps arbitrary: a)
  case Nil
  show ?case by simp
next
  case (Cons q qs)
  have "(map h a)[f q := g q] = map h (a[f q := v q])"
    using Cons.prems[of q] by (simp add: map_update)
  then show ?case using Cons.IH[of "a[f q := v q]"] Cons.prems by simp
qed

lemma finite_pixel:
  assumes "(y, x) \<in> set (interior m)"
    and "length (mosaicData m) = mosaicWidth m * mosaicHeight m"
    and "cellSizeX m \<noteq> 0" "cellSizeY m \<noteq> 0"
  shows "nodata_num m (map Num (mosaicData m)) y x \<longleftrightarrow> nodata m y x"
    "pixelSlope_num m (map Num (mosaicData m)) y x = Num (pixelSlope m y x)"
    "pixelColor_num m (map Num (mosaicData m)) y x = pixelColor m y x"
proof -
  have i: "0 < y" "y < mosaicHeight m - 1" "0 < x" "x < mosaicWidth m - 1"
    using assms(1) by (simp_all add: interior_iff)
  note r = neighbours_in_range[OF i]
  have z: "zN_num m (map Num (mosaicData m)) y x = Num (zN m y x)"
    "zS_num m (map Num (mosaicData m)) y x = Num (zS m y x)"
    "zE_num m (map Num (mosaicData m)) y x = Num (zE m y x)"
    "zW_num m (map Num (mosaicData m)) y x = Num (zW m y x)"
    using r assms(2)
    by (simp_all add: zN_num_def zS_num_def zE_num_def zW_num_def f32_get_def
        zN_def zS_def zE_def zW_def)
  show "nodata_num m (map Num (mosaicData m)) y x \<longleftrightarrow> nodata m y x"
    by (simp add: nodata_num_def z nodata_iff)
  show s: "pixelSlope_num m (map Num (mosaicData m)) y x = Num (pixelSlope m y x)"
    using pixelSlope_num_finite[OF z assms(3,4)] by (simp add: pixelSlope_eq)
  show "pixelColor_num m (map Num (mosaicData m)) y x = pixelColor m y x"
    by (simp add: pixelColor_num_def pixelColor_def s classify_num_Num)
qed

lemma computeSlope_num_finite:
  assumes "length (mosaicData m) = mosaicWidth m * mosaicHeight m"
    and "cellSizeX m \<noteq> 0" "cellSizeY m \<noteq> 0"
  shows "computeSlope_num m (map Num (mosaicData m)) =
         (map Num (fst (computeSlope m)), snd (computeSlope m))"
proof (rule prod_eqI)
  let ?d = "map Num (mosaicData m)"
  have g: "(if nodata_num m ?d (fst p) (snd p) then Num 0 else pixelSlope_num m ?d (fst p) (snd p)) =
      Num (if nodata m (fst p) (snd p) then 0 else pixelSlope m (fst p) (snd p))"
    if "p \<in> set (interior m)" for p
    using finite_pixel(1,2)[of "fst p" "snd p" m] that assms by simp
  have "fst (computeSlope_num m ?d) =
      fold (\<lambda>p a. a[pixelIndex m p :=
          (if nodata_num m ?d (fst p) (snd p) then Num 0 else pixelSlope_num m ?d (fst p) (snd p))])
        (interior m) (map Num (replicate (length (mosaicData m)) 0))"
    by (simp add: computeSlope_num_fst)
  also have "\<dots> = map Num (fst (computeSlope m))"
    unfolding computeSlope_fst using g by (rule fold_write_map)
  finally show "fst (computeSlope_num m ?d) =
      fst (map Num (fst (computeSlope m)), snd (computeSlope m))"
    by simp
  have "snd (computeSlope_num m ?d) = snd (computeSlope m)"
    unfolding computeSlope_num_snd computeSlope_snd
  proof (rule List.fold_cong)
    fix p assume p: "p \<in> set (interior m)"
    show "(\<lambda>a. if nodata_num m ?d (fst p) (snd p) then a
            else put4 (pixelIndex m p) (pixelColor_num m ?d (fst p) (snd p)) a) =
          (\<lambda>a. if nodata m (fst p) (snd p) then a
            else put4 (pixelIndex m p) (pixelColor m (fst p) (snd p)) a)"
      using finite_pixel(1,3)[of "fst p" "snd p" m] p assms by (simp cong: if_cong)
  qed simp_all
  then show "snd (computeSlope_num m ?d) =
      snd (map Num (fst (computeSlope m)), snd (computeSlope m))"
    by simp
qed

subsection \<open>Copying tiles into the mosaic\<close>

lemma TILE_SIZE_pos: "0 < TILE_SIZE"
  by (simp add: TILE_SIZE_def)

lemma f32_set_nat: "f32_set a (int i) v = a[i := v]"
  by (simp add: f32_set_def list_update_beyond)

lemma div_mod_block:
  fixes k m n :: nat
  assumes "n < m"
  shows "(k * m + n) div m = k" "(k * m + n) mod m = n"
  using assms by simp_all

lemma fill_tile_flat:
  assumes "xMin \<le> tx t" "yMin \<le> ty t"
  shows "fill_tile xMin yMin (int w) t a =
         fold (\<lambda>p a. a[tileCell xMin yMin w t (fst p) (snd p) := tdata t ! (fst p * TILE_SIZE + snd p)])
           (List.product [0..<TILE_SIZE] [0..<TILE_SIZE]) a"
proof -
  have i: "(ty t - yMin) * int TILE_SIZE + int r = int (nat (ty t - yMin) * TILE_SIZE + r)"
    "(tx t - xMin) * int TILE_SIZE + int c = int (nat (tx t - xMin) * TILE_SIZE + c)" for r c
    using assms by simp_all
  have "((ty t - yMin) * int TILE_SIZE + int r) * int w + ((tx t - xMin) * int TILE_SIZE + int c)
      = int (tileCell xMin yMin w t r c)" for r c
    unfolding i tileCell_def by simp
  then show ?thesis
    by (simp add: fill_tile_def Let_def f32_set_nat fold_nested_product)
qed

lemma grid_cell_unique:
  fixes U T :: nat
  assumes "i < U" "i' < U" "r < T" "c < T" "r' < T" "c' < T"
    and "(j * T + r) * (U * T) + (i * T + c) = (j' * T + r') * (U * T) + (i' * T + c')"
  shows "i = i' \<and> j = j' \<and> r = r' \<and> c = c'"
proof -
  have x: "i * T + c < U * T" if "i < U" "c < T" for i c
  proof -
    have "i * T + c < (i + 1) * T" using that(2) by simp
    also have "\<dots> \<le> U * T" using that(1) by (intro mult_le_mono1) simp
    finally show ?thesis .
  qed
  have d: "((j * T + r) * (U * T) + (i * T + c)) div (U * T) = j * T + r"
    "((j * T + r) * (U * T) + (i * T + c)) mod (U * T) = i * T + c"
    using x[OF assms(1,4)] by (rule div_mod_block)+
  have d': "((j' * T + r') * (U * T) + (i' * T + c')) div (U * T) = j' * T + r'"
    "((j' * T + r') * (U * T) + (i' * T + c')) mod (U * T) = i' * T + c'"
    using x[OF assms(2,6)] by (rule div_mod_block)+
  have e1: "j * T + r = j' * T + r'" using d(1) d'(1) assms(7) by (simp only:)
  have e2: "i * T + c = i' * T + c'" using d(2) d'(2) assms(7) by (simp only:)
  have "(j * T + r) div T = j" "(j * T + r) mod T = r" using assms(3) by simp_all
  moreover have "(j' * T + r') div T = j'" "(j' * T + r') mod T = r'" using assms(5) by simp_all
  ultimately have a: "j = j'" "r = r'" using e1 by (simp_all only:)
  have "(i * T + c) div T = i" "(i * T + c) mod T = c" using assms(4) by simp_all
  moreover have "(i' * T + c') div T = i'" "(i' * T + c') mod T = c'" using assms(6) by simp_all
  ultimately have b: "i = i'" "c = c'" using e2 by (simp_all only:)
  show ?thesis using a b by simp
qed

lemma grid_width:
  "xMin \<le> xMax \<Longrightarrow> nat ((xMax - xMin + 1) * int TILE_SIZE) = (nat (xMax - xMin) + 1) * TILE_SIZE"
  by (simp add: nat_mult_distrib nat_add_distrib)

lemma tileCell_unique:
  assumes "inGrid xMin xMax yMin yMax t" "inGrid xMin xMax yMin yMax t'"
    and "r < TILE_SIZE" "c < TILE_SIZE" "r' < TILE_SIZE" "c' < TILE_SIZE"
    and "w = nat ((xMax - xMin + 1) * int TILE_SIZE)"
    and "tileCell xMin yMin w t r c = tileCell xMin yMin w t' r' c'"
  shows "tx t = tx t' \<and> ty t = ty t' \<and> r = r' \<and> c = c'"
proof -
  have le: "xMin \<le> xMax" using assms(1) by (simp add: inGrid_def)
  have w: "w = (nat (xMax - xMin) + 1) * TILE_SIZE"
    using assms(7) grid_width[OF le] by simp
  have "nat (tx t - xMin) < nat (xMax - xMin) + 1" "nat (tx t' - xMin) < nat (xMax - xMin) + 1"
    using assms(1,2) unfolding inGrid_def by linarith+
  then have "nat (tx t - xMin) = nat (tx t' - xMin) \<and> nat (ty t - yMin) = nat (ty t' - yMin) \<and>
      r = r' \<and> c = c'"
    using assms(3-6) assms(8) unfolding tileCell_def w by (rule grid_cell_unique)
  moreover have "int (nat (tx t - xMin)) = tx t - xMin" "int (nat (tx t' - xMin)) = tx t' - xMin"
    "int (nat (ty t - yMin)) = ty t - yMin" "int (nat (ty t' - yMin)) = ty t' - yMin"
    using assms(1,2) by (simp_all add: inGrid_def)
  ultimately show ?thesis by (metis add_diff_cancel_right' diff_add_cancel)
qed

lemma tileCell_bound:
  assumes "inGrid xMin xMax yMin yMax t" "r < TILE_SIZE" "c < TILE_SIZE"
  shows "tileCell xMin yMin (nat ((xMax - xMin + 1) * int TILE_SIZE)) t r c
         < nat ((xMax - xMin + 1) * int TILE_SIZE) * nat ((yMax - yMin + 1) * int TILE_SIZE)"
proof -
  let ?U = "nat (xMax - xMin) + 1" and ?V = "nat (yMax - yMin) + 1"
  let ?i = "nat (tx t - xMin)" and ?j = "nat (ty t - yMin)"
  have le: "xMin \<le> xMax" "yMin \<le> yMax" using assms(1) by (simp_all add: inGrid_def)
  have i: "?i < ?U" "?j < ?V" using assms(1) unfolding inGrid_def by linarith+
  have x: "?i * TILE_SIZE + c < ?U * TILE_SIZE"
  proof -
    have "?i * TILE_SIZE + c < (?i + 1) * TILE_SIZE" using assms(3) by simp
    also have "\<dots> \<le> ?U * TILE_SIZE" using i(1) by (intro mult_le_mono1) simp
    finally show ?thesis .
  qed
  have y: "?j * TILE_SIZE + r < ?V * TILE_SIZE"
  proof -
    have "?j * TILE_SIZE + r < (?j + 1) * TILE_SIZE" using assms(2) by simp
    also have "\<dots> \<le> ?V * TILE_SIZE" using i(2) by (intro mult_le_mono1) simp
    finally show ?thesis .
  qed
  have "(?j * TILE_SIZE + r) * (?U * TILE_SIZE) + (?i * TILE_SIZE + c)
      < (?j * TILE_SIZE + r + 1) * (?U * TILE_SIZE)"
    using x by simp
  also have "\<dots> \<le> (?V * TILE_SIZE) * (?U * TILE_SIZE)"
    using y by (intro mult_le_mono1) simp
  finally show ?thesis
    unfolding tileCell_def grid_width[OF le(1)] grid_width[OF le(2)]
    by (simp add: mult.commute)
qed

lemma fill_tile_length [simp]:
  "xMin \<le> tx t \<Longrightarrow> yMin \<le> ty t \<Longrightarrow> length (fill_tile xMin yMin (int w) t a) = length a"
  by (simp add: fill_tile_flat)

lemma fill_tile_hit:
  assumes "inGrid xMin xMax yMin yMax t" "r < TILE_SIZE" "c < TILE_SIZE"
    and "w = nat ((xMax - xMin + 1) * int TILE_SIZE)"
    and "tileCell xMin yMin w t r c < length a"
  shows "fill_tile xMin yMin (int w) t a ! tileCell xMin yMin w t r c = tdata t ! (r * TILE_SIZE + c)"
proof -
  let ?f = "\<lambda>p. tileCell xMin yMin w t (fst p) (snd p)"
  let ?ps = "List.product [0..<TILE_SIZE] [0..<TILE_SIZE]"
  have g: "xMin \<le> tx t" "yMin \<le> ty t" using assms(1) by (simp_all add: inGrid_def)
  have "inj_on ?f (set ?ps)"
  proof (rule inj_onI)
    fix p q assume p: "p \<in> set ?ps" and q: "q \<in> set ?ps" and e: "?f p = ?f q"
    have "fst p < TILE_SIZE" "snd p < TILE_SIZE" using p by auto
    moreover have "fst q < TILE_SIZE" "snd q < TILE_SIZE" using q by auto
    ultimately have "fst p = fst q \<and> snd p = snd q"
      using tileCell_unique[OF assms(1,1) _ _ _ _ assms(4) e] by blast
    then show "p = q" by (simp add: prod_eq_iff)
  qed
  then have d: "distinct (map ?f ?ps)"
    by (simp add: distinct_map distinct_product)
  have m: "(r, c) \<in> set ?ps" using assms(2,3) by simp
  show ?thesis
    unfolding fill_tile_flat[OF g]
    using fold_write_hit[OF d m, of a "\<lambda>p. tdata t ! (fst p * TILE_SIZE + snd p)"] assms(5)
    by simp
qed

lemma fill_tile_miss:
  assumes "xMin \<le> tx t" "yMin \<le> ty t"
    and "\<And>r c. r < TILE_SIZE \<Longrightarrow> c < TILE_SIZE \<Longrightarrow> tileCell xMin yMin w t r c \<noteq> j"
  shows "fill_tile xMin yMin (int w) t a ! j = a ! j"
proof -
  have "\<And>p. p \<in> set (List.product [0..<TILE_SIZE] [0..<TILE_SIZE]) \<Longrightarrow>
      tileCell xMin yMin w t (fst p) (snd p) \<noteq> j"
    using assms(3) by fastforce
  then show ?thesis
    unfolding fill_tile_flat[OF assms(1,2)] by (rule fold_write_miss)
qed

lemma fold_fill_length:
  "\<forall>v\<in>set vts. xMin \<le> tx v \<and> yMin \<le> ty v \<Longrightarrow>
   length (fold (fill_tile xMin yMin (int w)) vts a) = length a"
  by (induction vts arbitrary: a) simp_all

lemma fold_fill_miss:
  assumes "\<forall>v\<in>set vts. inGrid xMin xMax yMin yMax v" "inGrid xMin xMax yMin yMax t"
    and "r < TILE_SIZE" "c < TILE_SIZE" "w = nat ((xMax - xMin + 1) * int TILE_SIZE)"
    and "\<forall>v\<in>set vts. (tx v, ty v) \<noteq> (tx t, ty t)"
  shows "fold (fill_tile xMin yMin (int w)) vts a ! tileCell xMin yMin w t r c =
         a ! tileCell xMin yMin w t r c"
  using assms(1,6)
proof (induction vts arbitrary: a)
  case Nil
  show ?case by simp
next
  case (Cons v vts)
  have g: "inGrid xMin xMax yMin yMax v" using Cons.prems(1) by simp
  have ne: "(tx v, ty v) \<noteq> (tx t, ty t)" using Cons.prems(2) by simp
  have "fill_tile xMin yMin (int w) v a ! tileCell xMin yMin w t r c = a ! tileCell xMin yMin w t r c"
  proof (rule fill_tile_miss)
    show "xMin \<le> tx v" "yMin \<le> ty v" using g by (simp_all add: inGrid_def)
    fix r' c' assume "r' < TILE_SIZE" "c' < TILE_SIZE"
    then show "tileCell xMin yMin w v r' c' \<noteq> tileCell xMin yMin w t r c"
      using tileCell_unique[OF g assms(2) _ _ assms(3,4,5), of r' c'] ne by auto
  qed
  moreover have "fold (fill_tile xMin yMin (int w)) vts (fill_tile xMin yMin (int w) v a) !
      tileCell xMin yMin w t r c = fill_tile xMin yMin (int w) v a ! tileCell xMin yMin w t r c"
    using Cons.prems by (intro Cons.IH) simp_all
  ultimately show ?case by simp
qed

lemma fold_fill_hit:
  assumes "\<forall>v\<in>set vts. inGrid xMin xMax yMin yMax v"
    and "distinct (map (\<lambda>v. (tx v, ty v)) vts)"
    and "v \<in> set vts" "tileCell xMin yMin w v r c < length a"
    and "r < TILE_SIZE" "c < TILE_SIZE" "w = nat ((xMax - xMin + 1) * int TILE_SIZE)"
  shows "fold (fill_tile xMin yMin (int w)) vts a ! tileCell xMin yMin w v r c =
         tdata v ! (r * TILE_SIZE + c)"
  using assms(1-4)
proof (induction vts arbitrary: a)
  case Nil
  then show ?case by simp
next
  case (Cons u vts)
  have gu: "inGrid xMin xMax yMin yMax u" and gs: "\<forall>v\<in>set vts. inGrid xMin xMax yMin yMax v"
    using Cons.prems(1) by simp_all
  have lu: "length (fill_tile xMin yMin (int w) u a) = length a"
    using gu by (simp add: inGrid_def)
  show ?case
  proof (cases "u = v")
    case True
    have "\<forall>v'\<in>set vts. (tx v', ty v') \<noteq> (tx v, ty v)"
      using Cons.prems(2) True by (auto simp: image_iff)
    then have "fold (fill_tile xMin yMin (int w)) vts (fill_tile xMin yMin (int w) v a) !
        tileCell xMin yMin w v r c = fill_tile xMin yMin (int w) v a ! tileCell xMin yMin w v r c"
      using gs gu True assms(5-7) by (intro fold_fill_miss) simp_all
    also have "\<dots> = tdata v ! (r * TILE_SIZE + c)"
      using gu True assms(5-7) Cons.prems(4) by (intro fill_tile_hit) simp_all
    finally show ?thesis using True by simp
  next
    case False
    have "fold (fill_tile xMin yMin (int w)) vts (fill_tile xMin yMin (int w) u a) !
        tileCell xMin yMin w v r c = tdata v ! (r * TILE_SIZE + c)"
    proof (rule Cons.IH)
      show "\<forall>v\<in>set vts. inGrid xMin xMax yMin yMax v" by (rule gs)
      show "distinct (map (\<lambda>v. (tx v, ty v)) vts)" using Cons.prems(2) by simp
      show "v \<in> set vts" using Cons.prems(3) False by simp
      show "tileCell xMin yMin w v r c < length (fill_tile xMin yMin (int w) u a)"
        using Cons.prems(4) lu by simp
    qed
    then show ?thesis by simp
  qed
qed

lemma set_tilesToFetch:
  "t \<in> set (tilesToFetch xMin xMax yMin yMax) \<longleftrightarrow>
   inGrid xMin xMax yMin yMax t \<and> tz t = TILE_ZOOM"
proof (cases t)
  case (fields x y z)
  show ?thesis
  proof
    assume "t \<in> set (tilesToFetch xMin xMax yMin yMax)"
    then show "inGrid xMin xMax yMin yMax t \<and> tz t = TILE_ZOOM"
      by (auto simp: tilesToFetch_def inGrid_def)
  next
    assume a: "inGrid xMin xMax yMin yMax t \<and> tz t = TILE_ZOOM"
    then have "x \<in> {xMin..xMax}" "y \<in> {yMin..yMax}" "z = TILE_ZOOM"
      using fields by (simp_all add: inGrid_def)
    then have "\<exists>x'\<in>{xMin..xMax}. \<exists>y'\<in>{yMin..yMax}. t = \<lparr>tx = x', ty = y', tz = TILE_ZOOM\<rparr>"
      using fields by blast
    then show "t \<in> set (tilesToFetch xMin xMax yMin yMax)"
      by (auto simp: tilesToFetch_def)
  qed
qed

lemma distinct_tilesToFetch:
  "distinct (map (\<lambda>t. (tx t, ty t)) (tilesToFetch xMin xMax yMin yMax))"
proof -
  have "map (\<lambda>t. (tx t, ty t)) (tilesToFetch xMin xMax yMin yMax) =
      List.product [xMin..xMax] [yMin..yMax]"
    by (simp add: tilesToFetch_def map_concat comp_def List.product_concat_map)
  then show ?thesis by (simp add: distinct_product)
qed

lemma validTiles_eq:
  "List.map_filter (\<lambda>t. t) (map (fetchTile fetch) ts) =
   map (\<lambda>t. the (fetchTile fetch t)) (filter (\<lambda>t. fetch t \<noteq> None) ts)"
  by (induction ts) (auto simp: List.map_filter_def fetchTile_def split: option.splits)

lemma fetchTile_Some:
  "fetch t = Some (d, w, h) \<Longrightarrow>
   the (fetchTile fetch t) = \<lparr>tx = tx t, ty = ty t, tz = tz t, tdata = d, twidth = w, theight = h\<rparr>"
  by (simp add: fetchTile_def)

lemma fetchTile_coords:
  "fetch t \<noteq> None \<Longrightarrow>
   tx (the (fetchTile fetch t)) = tx t \<and> ty (the (fetchTile fetch t)) = ty t"
  by (auto simp: fetchTile_def split: option.splits)

lemma validTiles_coords:
  "map (\<lambda>v. (tx v, ty v)) (map (\<lambda>t. the (fetchTile fetch t)) (filter (\<lambda>t. fetch t \<noteq> None) ts)) =
   map (\<lambda>t. (tx t, ty t)) (filter (\<lambda>t. fetch t \<noteq> None) ts)"
  by (induction ts) (simp_all add: fetchTile_coords)

lemma validTiles_set:
  "v \<in> set (validTiles fetch b) \<longleftrightarrow>
   (\<exists>t\<in>set (tilesToFetch (lng2tile (west b) TILE_ZOOM) (lng2tile (east b) TILE_ZOOM)
          (lat2tile (north b) TILE_ZOOM) (lat2tile (south b) TILE_ZOOM)).
      fetch t \<noteq> None \<and> v = the (fetchTile fetch t))"
  by (auto simp: validTiles_def validTiles_eq)

lemma validTiles_inGrid:
  "v \<in> set (validTiles fetch b) \<Longrightarrow>
   inGrid (lng2tile (west b) TILE_ZOOM) (lng2tile (east b) TILE_ZOOM)
     (lat2tile (north b) TILE_ZOOM) (lat2tile (south b) TILE_ZOOM) v"
  using fetchTile_coords[of fetch]
  by (auto simp: validTiles_set set_tilesToFetch inGrid_def)

lemma validTiles_distinct: "distinct (map (\<lambda>v. (tx v, ty v)) (validTiles fetch b))"
  unfolding validTiles_def validTiles_eq validTiles_coords
  using distinct_tilesToFetch by (rule distinct_map_filter)

lemma assembleMosaic_Inl:
  "validTiles fetch b = [] \<Longrightarrow> assembleMosaic fetch b = Inl NoElevationData"
  by (simp add: assembleMosaic_def validTiles_def Let_def)

lemma assembleMosaic_Inr:
  assumes "validTiles fetch b \<noteq> []"
    and "xMin = lng2tile (west b) TILE_ZOOM" "xMax = lng2tile (east b) TILE_ZOOM"
    and "yMin = lat2tile (north b) TILE_ZOOM" "yMax = lat2tile (south b) TILE_ZOOM"
  shows "assembleMosaic fetch b =
         Inr \<lparr>mosaicWidth = nat ((xMax - xMin + 1) * int TILE_SIZE),
              mosaicHeight = nat ((yMax - yMin + 1) * int TILE_SIZE),
              mosaicData = fold (fill_tile xMin yMin (int (nat ((xMax - xMin + 1) * int TILE_SIZE))))
                 (validTiles fetch b)
                 (replicate (nat ((xMax - xMin + 1) * int TILE_SIZE) *
                             nat ((yMax - yMin + 1) * int TILE_SIZE)) 0),
              mosaicNorth = tile2lat yMin TILE_ZOOM,
              mosaicWest = tile2lng xMin TILE_ZOOM,
              mosaicSouth = tile2lat (yMax + 1) TILE_ZOOM,
              mosaicEast = tile2lng (xMax + 1) TILE_ZOOM\<rparr>"
proof -
  obtain v where v: "v \<in> set (validTiles fetch b)"
    using assms(1) by (cases "validTiles fetch b") auto
  have g: "inGrid xMin xMax yMin yMax v"
    using validTiles_inGrid[OF v] assms(2-5) by simp
  have le: "xMin \<le> xMax" "yMin \<le> yMax"
    using g by (simp_all add: inGrid_def)
  have w: "int (nat ((xMax - xMin + 1) * int TILE_SIZE)) = (xMax - xMin + 1) * int TILE_SIZE"
    using le(1) by simp
  have n: "nat ((xMax - xMin + 1) * int TILE_SIZE * ((yMax - yMin + 1) * int TILE_SIZE)) =
      nat ((xMax - xMin + 1) * int TILE_SIZE) * nat ((yMax - yMin + 1) * int TILE_SIZE)"
    using le by (simp add: nat_mult_distrib)
  have vt: "validTiles fetch b =
      List.map_filter (\<lambda>t. t) (map (fetchTile fetch) (tilesToFetch xMin xMax yMin yMax))"
    by (simp add: validTiles_def assms(2-5))
  show ?thesis
    using assms(1) unfolding w vt
    by (simp add: assembleMosaic_def Let_def n assms(2-5)[symmetric])
qed

lemma lat2tile_tile2lat_r: "lat2tile (tile2lat_r t z) z = \<lfloor>t\<rfloor>"
  by (simp add: lat2tile_as_r lat2tile_r_tile2lat_r)

lemma equatorBox_range:
  "lng2tile (west equatorBox) TILE_ZOOM = 2048" "lng2tile (east equatorBox) TILE_ZOOM = 2049"
  "lat2tile (north equatorBox) TILE_ZOOM = 2048" "lat2tile (south equatorBox) TILE_ZOOM = 2048"
proof -
  show "lng2tile (west equatorBox) TILE_ZOOM = 2048"
    by (simp add: equatorBox_def lng2tile_def TILE_ZOOM_def)
  have "(2049::real) \<le> (1 / 10 + 180) / 360 * 2 ^ 12" "(1 / 10 + 180) / 360 * 2 ^ 12 < (2049::real) + 1"
    by simp_all
  then show "lng2tile (east equatorBox) TILE_ZOOM = 2049"
    unfolding equatorBox_def lng2tile_def TILE_ZOOM_def by (simp add: floor_unique)
  show "lat2tile (north equatorBox) TILE_ZOOM = 2048"
    by (simp add: equatorBox_def lat2tile_def TILE_ZOOM_def)
  have "\<lfloor>4097 / 2 :: real\<rfloor> = 2048" by simp
  then show "lat2tile (south equatorBox) TILE_ZOOM = 2048"
    by (simp add: equatorBox_def TILE_ZOOM_def lat2tile_tile2lat_r)
qed

lemma validTiles_nonempty_iff:
  "validTiles fetch b \<noteq> [] \<longleftrightarrow>
   (\<exists>t\<in>set (tilesToFetch (lng2tile (west b) TILE_ZOOM) (lng2tile (east b) TILE_ZOOM)
          (lat2tile (north b) TILE_ZOOM) (lat2tile (south b) TILE_ZOOM)). fetch t \<noteq> None)"
proof -
  have "validTiles fetch b \<noteq> [] \<longleftrightarrow> (\<exists>v. v \<in> set (validTiles fetch b))"
    by (cases "validTiles fetch b") auto
  also have "\<dots> \<longleftrightarrow> (\<exists>t\<in>set (tilesToFetch (lng2tile (west b) TILE_ZOOM)
      (lng2tile (east b) TILE_ZOOM) (lat2tile (north b) TILE_ZOOM) (lat2tile (south b) TILE_ZOOM)).
      fetch t \<noteq> None)"
    unfolding validTiles_set by blast
  finally show ?thesis .
qed

lemma assembled_cell:
  assumes "xMin = lng2tile (west b) TILE_ZOOM" "xMax = lng2tile (east b) TILE_ZOOM"
    and "yMin = lat2tile (north b) TILE_ZOOM" "yMax = lat2tile (south b) TILE_ZOOM"
    and "w = nat ((xMax - xMin + 1) * int TILE_SIZE)"
    and "h = nat ((yMax - yMin + 1) * int TILE_SIZE)"
    and "t \<in> set (tilesToFetch xMin xMax yMin yMax)" "r < TILE_SIZE" "c < TILE_SIZE"
  shows "fold (fill_tile xMin yMin (int w)) (validTiles fetch b) (replicate (w * h) 0) !
           tileCell xMin yMin w t r c =
         (case fetch t of None \<Rightarrow> 0 | Some (d, tw, th) \<Rightarrow> d ! (r * TILE_SIZE + c))"
proof -
  let ?vts = "validTiles fetch b"
  have g: "inGrid xMin xMax yMin yMax t" and z: "tz t = TILE_ZOOM"
    using assms(7) by (simp_all add: set_tilesToFetch)
  have gs: "\<forall>v\<in>set ?vts. inGrid xMin xMax yMin yMax v"
    using validTiles_inGrid[of _ fetch b] assms(1-4) by simp
  have bound: "tileCell xMin yMin w t' r c < w * h" if "inGrid xMin xMax yMin yMax t'" for t' :: "'a tile_scheme"
    using tileCell_bound[OF that assms(8,9)] assms(5,6) by simp
  show ?thesis
  proof (cases "fetch t")
    case None
    have "\<forall>v\<in>set ?vts. (tx v, ty v) \<noteq> (tx t, ty t)"
    proof
      fix v assume "v \<in> set ?vts"
      then obtain t' where t': "t' \<in> set (tilesToFetch xMin xMax yMin yMax)" "fetch t' \<noteq> None"
          "v = the (fetchTile fetch t')"
        using assms(1-4) by (auto simp: validTiles_set)
      have "tz t' = TILE_ZOOM" using t'(1) by (simp add: set_tilesToFetch)
      then have "(tx t', ty t') = (tx t, ty t) \<Longrightarrow> t' = t" using z by simp
      then have "(tx t', ty t') \<noteq> (tx t, ty t)" using t'(2) None by auto
      then show "(tx v, ty v) \<noteq> (tx t, ty t)"
        using fetchTile_coords[of fetch t'] t'(2,3) by simp
    qed
    then have "fold (fill_tile xMin yMin (int w)) ?vts (replicate (w * h) 0) ! tileCell xMin yMin w t r c
        = replicate (w * h) 0 ! tileCell xMin yMin w t r c"
      using gs g assms(8,9,5) by (intro fold_fill_miss) simp_all
    then show ?thesis using None bound[OF g] by simp
  next
    case (Some raster)
    obtain d tw th where raster: "raster = (d, tw, th)" by (cases raster) auto
    let ?v = "the (fetchTile fetch t)"
    have v: "?v = \<lparr>tx = tx t, ty = ty t, tz = tz t, tdata = d, twidth = tw, theight = th\<rparr>"
      using Some raster by (simp add: fetchTile_Some)
    have "t \<in> set (tilesToFetch (lng2tile (west b) TILE_ZOOM) (lng2tile (east b) TILE_ZOOM)
        (lat2tile (north b) TILE_ZOOM) (lat2tile (south b) TILE_ZOOM))" "fetch t \<noteq> None"
      using assms(1-4,7) Some by simp_all
    then have m: "?v \<in> set ?vts"
      unfolding validTiles_set by blast
    have c: "tileCell xMin yMin w ?v r c = tileCell xMin yMin w t r c"
      by (simp add: v tileCell_def)
    have "inGrid xMin xMax yMin yMax ?v" using gs m by blast
    then have l: "tileCell xMin yMin w ?v r c < length (replicate (w * h) (0::real))"
      using bound[of ?v] by simp
    have "fold (fill_tile xMin yMin (int w)) ?vts (replicate (w * h) 0) ! tileCell xMin yMin w ?v r c
        = tdata ?v ! (r * TILE_SIZE + c)"
      using gs validTiles_distinct m l assms(8,9,5) by (rule fold_fill_hit)
    then have "fold (fill_tile xMin yMin (int w)) ?vts (replicate (w * h) 0) ! tileCell xMin yMin w t r c
        = d ! (r * TILE_SIZE + c)"
      unfolding c by (simp add: v)
    then show ?thesis using Some raster by simp
  qed
qed



lemma assembleMosaic_cases:
  assumes "assembleMosaic fetch b = Inr m"
    and "xMin = lng2tile (west b) TILE_ZOOM" "xMax = lng2tile (east b) TILE_ZOOM"
    and "yMin = lat2tile (north b) TILE_ZOOM" "yMax = lat2tile (south b) TILE_ZOOM"
  shows "xMin \<le> xMax" "yMin \<le> yMax"
    "m = \<lparr>mosaicWidth = nat ((xMax - xMin + 1) * int TILE_SIZE),
          mosaicHeight = nat ((yMax - yMin + 1) * int TILE_SIZE),
          mosaicData = fold (fill_tile xMin yMin (int (nat ((xMax - xMin + 1) * int TILE_SIZE))))
             (validTiles fetch b)
             (replicate (nat ((xMax - xMin + 1) * int TILE_SIZE) *
                         nat ((yMax - yMin + 1) * int TILE_SIZE)) 0),
          mosaicNorth = tile2lat yMin TILE_ZOOM,
          mosaicWest = tile2lng xMin TILE_ZOOM,
          mosaicSouth = tile2lat (yMax + 1) TILE_ZOOM,
          mosaicEast = tile2lng (xMax + 1) TILE_ZOOM\<rparr>"
    "\<forall>v\<in>set (validTiles fetch b). xMin \<le> tx v \<and> yMin \<le> ty v"
proof -
  have ne: "validTiles fetch b \<noteq> []"
    using assms(1) assembleMosaic_Inl[of fetch b] by auto
  then obtain v where v: "v \<in> set (validTiles fetch b)"
    by (cases "validTiles fetch b") auto
  have "inGrid xMin xMax yMin yMax v"
    using validTiles_inGrid[OF v] assms(2-5) by simp
  then show "xMin \<le> xMax" "yMin \<le> yMax" by (simp_all add: inGrid_def)
  show "m = \<lparr>mosaicWidth = nat ((xMax - xMin + 1) * int TILE_SIZE),
          mosaicHeight = nat ((yMax - yMin + 1) * int TILE_SIZE),
          mosaicData = fold (fill_tile xMin yMin (int (nat ((xMax - xMin + 1) * int TILE_SIZE))))
             (validTiles fetch b)
             (replicate (nat ((xMax - xMin + 1) * int TILE_SIZE) *
                         nat ((yMax - yMin + 1) * int TILE_SIZE)) 0),
          mosaicNorth = tile2lat yMin TILE_ZOOM,
          mosaicWest = tile2lng xMin TILE_ZOOM,
          mosaicSouth = tile2lat (yMax + 1) TILE_ZOOM,
          mosaicEast = tile2lng (xMax + 1) TILE_ZOOM\<rparr>"
    using assembleMosaic_Inr[OF ne assms(2-5)] assms(1) by simp
  show "\<forall>v\<in>set (validTiles fetch b). xMin \<le> tx v \<and> yMin \<le> ty v"
    using validTiles_inGrid[of _ fetch b] by (auto simp: assms(2-5) inGrid_def)
qed



subsection \<open>Printing with twelve decimals\<close>

lemma digitsOf_numeral:
  "digitsOf (numeral k) n = digitsOf (pred_numeral k) (n div 10) @ [digitChar (n mod 10)]"
proof -
  have "digitsOf (numeral k) n = digitsOf (Suc (pred_numeral k)) n"
    by (simp only: numeral_eq_Suc)
  then show ?thesis by (simp only: digitsOf.simps)
qed

lemma decimal_small: "n < 10 \<Longrightarrow> decimal n = [digitChar n]"
  by (subst decimal.simps) simp

lemma decimal_step: "10 \<le> n \<Longrightarrow> decimal n = decimal (n div 10) @ [digitChar (n mod 10)]"
  by (subst decimal.simps) simp

lemma toFixed_stages:
  assumes "nat \<lfloor>\<bar>x\<bar> * 10 ^ 12 + 1 / 2\<rfloor> = n"
    and "decimal (n div 10 ^ 12) = a" and "digitsOf 12 (n mod 10 ^ 12) = b"
  shows "toFixed x 12 = (if x < 0 then CHR ''-'' # a @ CHR ''.'' # b else a @ CHR ''.'' # b)"
  unfolding toFixed_def Let_def assms by simp

lemma toFixed_milli: "toFixed (1 / 1000) 12 = ''0.001000000000''"
proof -
  have "nat \<lfloor>\<bar>1 / 1000 :: real\<bar> * 10 ^ 12 + 1 / 2\<rfloor> = 1000000000"
    by simp
  moreover have "decimal (1000000000 div 10 ^ 12) = ''0''"
    by (simp add: decimal_small decimal_step digitChar_def)
  moreover have "digitsOf 12 (1000000000 mod 10 ^ 12) = ''001000000000''"
    by (simp add: digitsOf_numeral digitChar_def)
  ultimately show ?thesis
    by (simp add: toFixed_stages)
qed

lemma toFixed_minus_milli: "toFixed (- (1 / 1000)) 12 = ''-0.001000000000''"
proof -
  have "nat \<lfloor>\<bar>- (1 / 1000) :: real\<bar> * 10 ^ 12 + 1 / 2\<rfloor> = 1000000000"
    by simp
  moreover have "decimal (1000000000 div 10 ^ 12) = ''0''"
    by (simp add: decimal_small decimal_step digitChar_def)
  moreover have "digitsOf 12 (1000000000 mod 10 ^ 12) = ''001000000000''"
    by (simp add: digitsOf_numeral digitChar_def)
  ultimately show ?thesis
    by (simp add: toFixed_stages)
qed

lemma toFixed_origin_x: "toFixed (20001 / 2000) 12 = ''10.000500000000''"
proof -
  have "nat \<lfloor>\<bar>20001 / 2000 :: real\<bar> * 10 ^ 12 + 1 / 2\<rfloor> = 10000500000000"
    by simp
  moreover have "decimal (10000500000000 div 10 ^ 12) = ''10''"
    by (simp add: decimal_small decimal_step digitChar_def)
  moreover have "digitsOf 12 (10000500000000 mod 10 ^ 12) = ''000500000000''"
    by (simp add: digitsOf_numeral digitChar_def)
  ultimately show ?thesis
    by (simp add: toFixed_stages)
qed

lemma toFixed_origin_y: "toFixed (99999 / 2000) 12 = ''49.999500000000''"
proof -
  have "nat \<lfloor>\<bar>99999 / 2000 :: real\<bar> * 10 ^ 12 + 1 / 2\<rfloor> = 49999500000000"
    by simp
  moreover have "decimal (49999500000000 div 10 ^ 12) = ''49''"
    by (simp add: decimal_small decimal_step digitChar_def)
  moreover have "digitsOf 12 (49999500000000 mod 10 ^ 12) = ''999500000000''"
    by (simp add: digitsOf_numeral digitChar_def)
  ultimately show ?thesis
    by (simp add: toFixed_stages)
qed

subsection \<open>The accumulated path and its winding number\<close>












subsection \<open>The sample tile at the equator\<close>


















section \<open>The specification, claim by claim\<close>

subsection \<open>Tile round trip\<close>




subsection \<open>The border of the slope raster\<close>

text \<open>
  Claim C9. For every mosaic whose buffer has \<open>width * height\<close> cells, a pixel in row 0,
  in the last row, in column 0 or in the last column keeps its zero-initialised slope and
  its four zero RGBA bytes (fully transparent) after \<open>computeSlope\<close>.
\<close>

theorem border_never_written:
  assumes "length (mosaicData m) = mosaicWidth m * mosaicHeight m"
    and "x < mosaicWidth m" and "y < mosaicHeight m"
    and "y = 0 \<or> y = mosaicHeight m - 1 \<or> x = 0 \<or> x = mosaicWidth m - 1"
  shows "fst (computeSlope m) ! (y * mosaicWidth m + x) = 0 \<and>
         rgbaAt (snd (computeSlope m)) (y * mosaicWidth m + x) = [0, 0, 0, 0]"
proof -
  have n: "(y, x) \<notin> set (interior m)"
    using assms(4) by (auto simp: interior_iff)
  have "fst (computeSlope m) ! (y * mosaicWidth m + x) = 0"
    using assms(2,3,1) n by (rule slope_at_border)
  moreover have "rgbaAt (snd (computeSlope m)) (y * mosaicWidth m + x) = [0, 0, 0, 0]"
    using rgbaAt_untouched[OF assms(2,3,1)] n by simp
  ultimately show ?thesis by simp
qed

theorem border_never_written_witness:
  "length (mosaicData flat3) = mosaicWidth flat3 * mosaicHeight flat3 \<and>
   1 < mosaicWidth flat3 \<and> 0 < mosaicHeight flat3 \<and>
   fst (computeSlope flat3) ! (0 * mosaicWidth flat3 + 1) = 0 \<and>
   rgbaAt (snd (computeSlope flat3)) (0 * mosaicWidth flat3 + 1) = [0, 0, 0, 0]"
proof -
  have h: "length (mosaicData flat3) = mosaicWidth flat3 * mosaicHeight flat3"
    "1 < mosaicWidth flat3" "0 < mosaicHeight flat3"
    by (simp_all add: flat3_def)
  have "(0::nat) = 0 \<or> (0::nat) = mosaicHeight flat3 - 1 \<or> (1::nat) = 0 \<or>
      (1::nat) = mosaicWidth flat3 - 1"
    by simp
  from border_never_written[OF h this] h show ?thesis by simp
qed

subsection \<open>Slope of an interior pixel\<close>

text \<open>
  Claim C1. For an interior pixel whose four neighbour elevations are all at least
  \<open>-10000\<close>, the slope stored by \<open>computeSlope\<close> is
  \<open>arctan (sqrt (dzdx\<^sup>2 + dzdy\<^sup>2)) * 180 / pi\<close> with \<open>dzdx = (zE - zW) / (2 * cellSizeX)\<close> and
  \<open>dzdy = (zN - zS) / (2 * cellSizeY)\<close>; if moreover the whole mosaic has one constant
  elevation, that slope is 0 and the pixel carries the colour of the first class,
  \<open>#2ecc71\<close>, with alpha 210. The cell sizes are taken non-zero, as they are for every
  mosaic the program builds, so that the divisions are the program's.
\<close>

theorem slope_central_difference:
  assumes "length (mosaicData m) = mosaicWidth m * mosaicHeight m"
    and "0 < y" and "y < mosaicHeight m - 1" and "0 < x" and "x < mosaicWidth m - 1"
    and "- 10000 \<le> zN m y x" and "- 10000 \<le> zS m y x"
    and "- 10000 \<le> zE m y x" and "- 10000 \<le> zW m y x"
    and "cellSizeX m \<noteq> 0" and "cellSizeY m \<noteq> 0"
  shows "fst (computeSlope m) ! (y * mosaicWidth m + x) =
           arctan (sqrt (((zE m y x - zW m y x) / (2 * cellSizeX m))\<^sup>2 +
                         ((zN m y x - zS m y x) / (2 * cellSizeY m))\<^sup>2)) * 180 / pi \<and>
         ((\<forall>i<length (mosaicData m). mosaicData m ! i = c) \<longrightarrow>
            fst (computeSlope m) ! (y * mosaicWidth m + x) = 0 \<and>
            classify (fst (computeSlope m) ! (y * mosaicWidth m + x)) = color (SLOPE_RANGES ! 0) \<and>
            rgbaAt (snd (computeSlope m)) (y * mosaicWidth m + x) = [46, 204, 113, 210])"
proof -
  have nd: "\<not> nodata m y x"
    using assms(6-9) by (simp add: nodata_iff)
  have s: "fst (computeSlope m) ! (y * mosaicWidth m + x) = pixelSlope m y x"
    using slope_at_interior[OF assms(2-5,1)] nd by simp
  have r: "rgbaAt (snd (computeSlope m)) (y * mosaicWidth m + x) =
      (case pixelColor m y x of (c0, c1, c2, c3) \<Rightarrow> [c0, c1, c2, c3])"
    using assms(2-5,1) nd by (rule rgbaAt_interior)
  have flat: "fst (computeSlope m) ! (y * mosaicWidth m + x) = 0 \<and>
      classify (fst (computeSlope m) ! (y * mosaicWidth m + x)) = color (SLOPE_RANGES ! 0) \<and>
      rgbaAt (snd (computeSlope m)) (y * mosaicWidth m + x) = [46, 204, 113, 210]"
    if "\<forall>i<length (mosaicData m). mosaicData m ! i = c"
  proof -
    have z: "pixelSlope m y x = 0"
      using assms(2-5,1) that by (rule flat_pixelSlope)
    have "pixelColor m y x = (46, 204, 113, 210)"
      by (simp add: pixelColor_def z classify_0 hex_digit_def)
    then show ?thesis
      by (simp add: s r z classify_0 SLOPE_RANGES_def)
  qed
  show ?thesis using s flat by (simp add: pixelSlope_eq)
qed

theorem slope_central_difference_witness:
  "length (mosaicData flat3) = mosaicWidth flat3 * mosaicHeight flat3 \<and>
   (0::nat) < 1 \<and> 1 < mosaicHeight flat3 - 1 \<and> 1 < mosaicWidth flat3 - 1 \<and>
   - 10000 \<le> zN flat3 1 1 \<and> - 10000 \<le> zS flat3 1 1 \<and>
   - 10000 \<le> zE flat3 1 1 \<and> - 10000 \<le> zW flat3 1 1 \<and>
   cellSizeX flat3 \<noteq> 0 \<and> cellSizeY flat3 \<noteq> 0 \<and>
   mosaicData flat3 = replicate 9 100 \<and>
   fst (computeSlope flat3) ! (1 * mosaicWidth flat3 + 1) = 0 \<and>
   rgbaAt (snd (computeSlope flat3)) (1 * mosaicWidth flat3 + 1) = [46, 204, 113, 210]"
proof -
  have h: "length (mosaicData flat3) = mosaicWidth flat3 * mosaicHeight flat3"
    "(0::nat) < 1" "1 < mosaicHeight flat3 - 1" "(0::nat) < 1" "1 < mosaicWidth flat3 - 1"
    "- 10000 \<le> zN flat3 1 1" "- 10000 \<le> zS flat3 1 1"
    "- 10000 \<le> zE flat3 1 1" "- 10000 \<le> zW flat3 1 1"
    "cellSizeX flat3 \<noteq> 0" "cellSizeY flat3 \<noteq> 0"
    by (simp_all add: flat3_def zN_def zS_def zE_def zW_def cellSizeX_def cellSizeY_def
        degPerPixelX_def degPerPixelY_def metersPerLng_def metersPerLat_def centerLat_def)
  have c: "\<forall>i<length (mosaicData flat3). mosaicData flat3 ! i = 100"
    by (simp add: flat3_def)
  have d: "mosaicData flat3 = replicate 9 100"
    by (simp add: flat3_def)
  from slope_central_difference[OF h, of 100] c d h show ?thesis by blast
qed

subsection \<open>The nodata guard\<close>

text \<open>
  Claim C3. For an interior pixel, if any one of its four neighbour elevations is below
  \<open>-10000\<close>, whatever the other three are, the slope stored for the pixel is 0 and its four
  RGBA bytes stay 0 (fully transparent): the pixel is not classified.
\<close>

theorem nodata_pixel_transparent:
  assumes "length (mosaicData m) = mosaicWidth m * mosaicHeight m"
    and "0 < y" and "y < mosaicHeight m - 1" and "0 < x" and "x < mosaicWidth m - 1"
    and "zN m y x < - 10000 \<or> zS m y x < - 10000 \<or> zE m y x < - 10000 \<or> zW m y x < - 10000"
  shows "fst (computeSlope m) ! (y * mosaicWidth m + x) = 0 \<and>
         rgbaAt (snd (computeSlope m)) (y * mosaicWidth m + x) = [0, 0, 0, 0]"
proof -
  have nd: "nodata m y x"
    using assms(6) by (simp add: nodata_iff)
  have "fst (computeSlope m) ! (y * mosaicWidth m + x) = 0"
    using slope_at_interior[OF assms(2-5,1)] nd by simp
  moreover have "rgbaAt (snd (computeSlope m)) (y * mosaicWidth m + x) = [0, 0, 0, 0]"
  proof (rule rgbaAt_untouched)
    show "x < mosaicWidth m" using assms(5) by simp
    show "y < mosaicHeight m" using assms(3) by simp
    show "length (mosaicData m) = mosaicWidth m * mosaicHeight m" by (rule assms(1))
    show "nodata m y x" by (rule nd)
  qed
  ultimately show ?thesis by simp
qed

theorem nodata_pixel_transparent_witness:
  "length (mosaicData hole3) = mosaicWidth hole3 * mosaicHeight hole3 \<and>
   (0::nat) < 1 \<and> 1 < mosaicHeight hole3 - 1 \<and> 1 < mosaicWidth hole3 - 1 \<and>
   zN hole3 1 1 < - 10000 \<and> zS hole3 1 1 = 100 \<and> zE hole3 1 1 = 100 \<and> zW hole3 1 1 = 100 \<and>
   fst (computeSlope hole3) ! (1 * mosaicWidth hole3 + 1) = 0 \<and>
   rgbaAt (snd (computeSlope hole3)) (1 * mosaicWidth hole3 + 1) = [0, 0, 0, 0]"
proof -
  have h: "length (mosaicData hole3) = mosaicWidth hole3 * mosaicHeight hole3"
    "(0::nat) < 1" "1 < mosaicHeight hole3 - 1" "(0::nat) < 1" "1 < mosaicWidth hole3 - 1"
    by (simp_all add: hole3_def)
  have z: "zN hole3 1 1 < - 10000" "zS hole3 1 1 = 100" "zE hole3 1 1 = 100" "zW hole3 1 1 = 100"
    by (simp_all add: hole3_def zN_def zS_def zE_def zW_def)
  have "zN hole3 1 1 < - 10000 \<or> zS hole3 1 1 < - 10000 \<or> zE hole3 1 1 < - 10000 \<or>
      zW hole3 1 1 < - 10000"
    using z(1) by simp
  from nodata_pixel_transparent[OF h this] h z show ?thesis by simp
qed

subsection \<open>Classification\<close>

text \<open>
  Claim C2. The breakpoints of the table are 2, 5, 9, 15, 20, 25, 30, 35, 45, 999 in this
  order. For an interior pixel that passes the nodata guard, if entry \<open>i\<close> is the first
  entry of the table whose \<open>rmax\<close> is at least the pixel's slope, the colour chosen for the
  slope is the colour of entry \<open>i\<close> and the pixel's bytes are the red, green and blue of
  that colour followed by alpha 210. A slope of exactly 2 gets the colour of the first
  entry and a slope of 2.0001 the colour of the second.
\<close>

theorem classification_first_match:
  assumes "length (mosaicData m) = mosaicWidth m * mosaicHeight m"
    and "0 < y" and "y < mosaicHeight m - 1" and "0 < x" and "x < mosaicWidth m - 1"
    and "- 10000 \<le> zN m y x" and "- 10000 \<le> zS m y x"
    and "- 10000 \<le> zE m y x" and "- 10000 \<le> zW m y x"
    and "i < length SLOPE_RANGES"
    and "fst (computeSlope m) ! (y * mosaicWidth m + x) \<le> rmax (SLOPE_RANGES ! i)"
    and "\<forall>j<i. rmax (SLOPE_RANGES ! j) < fst (computeSlope m) ! (y * mosaicWidth m + x)"
  shows "map rmax SLOPE_RANGES = [2, 5, 9, 15, 20, 25, 30, 35, 45, 999] \<and>
         classify (fst (computeSlope m) ! (y * mosaicWidth m + x)) = color (SLOPE_RANGES ! i) \<and>
         rgbaAt (snd (computeSlope m)) (y * mosaicWidth m + x) =
           (case chroma_rgb (color (SLOPE_RANGES ! i)) of
              (r, g, b) \<Rightarrow> [of_nat r, of_nat g, of_nat b, 210]) \<and>
         classify 2 = color (SLOPE_RANGES ! 0) \<and>
         classify 2.0001 = color (SLOPE_RANGES ! 1)"
proof -
  have nd: "\<not> nodata m y x"
    using assms(6-9) by (simp add: nodata_iff)
  have s: "fst (computeSlope m) ! (y * mosaicWidth m + x) = pixelSlope m y x"
    using slope_at_interior[OF assms(2-5,1)] nd by simp
  have c: "classify (pixelSlope m y x) = color (SLOPE_RANGES ! i)"
    unfolding classify_def using assms(10-12) unfolding s by (rule classify_loop_first)
  have "rgbaAt (snd (computeSlope m)) (y * mosaicWidth m + x) =
      (case pixelColor m y x of (c0, c1, c2, c3) \<Rightarrow> [c0, c1, c2, c3])"
    using assms(2-5,1) nd by (rule rgbaAt_interior)
  then have r: "rgbaAt (snd (computeSlope m)) (y * mosaicWidth m + x) =
      (case chroma_rgb (color (SLOPE_RANGES ! i)) of
         (r, g, b) \<Rightarrow> [of_nat r, of_nat g, of_nat b, 210])"
    by (simp add: pixelColor_def c split: prod.splits)
  have "classify 2 = color (SLOPE_RANGES ! 0)" "classify 2.0001 = color (SLOPE_RANGES ! 1)"
    by (simp_all add: classify_def SLOPE_RANGES_def)
  then show ?thesis using SLOPE_RANGES_rmax c r by (simp add: s)
qed

theorem classification_first_match_witness:
  "length (mosaicData flat3) = mosaicWidth flat3 * mosaicHeight flat3 \<and>
   1 < mosaicHeight flat3 - 1 \<and> 1 < mosaicWidth flat3 - 1 \<and>
   - 10000 \<le> zN flat3 1 1 \<and> - 10000 \<le> zS flat3 1 1 \<and>
   - 10000 \<le> zE flat3 1 1 \<and> - 10000 \<le> zW flat3 1 1 \<and>
   0 < length SLOPE_RANGES \<and>
   fst (computeSlope flat3) ! (1 * mosaicWidth flat3 + 1) \<le> rmax (SLOPE_RANGES ! 0) \<and>
   classify (fst (computeSlope flat3) ! (1 * mosaicWidth flat3 + 1)) = ''#2ecc71'' \<and>
   rgbaAt (snd (computeSlope flat3)) (1 * mosaicWidth flat3 + 1) = [46, 204, 113, 210]"
proof -
  have g: "- 10000 \<le> zN flat3 1 1" "- 10000 \<le> zS flat3 1 1"
    "- 10000 \<le> zE flat3 1 1" "- 10000 \<le> zW flat3 1 1"
    using flat3_facts(4-7) by simp_all
  have i: "0 < length SLOPE_RANGES"
    "fst (computeSlope flat3) ! (1 * mosaicWidth flat3 + 1) \<le> rmax (SLOPE_RANGES ! 0)"
    "\<forall>j<0. rmax (SLOPE_RANGES ! j) < fst (computeSlope flat3) ! (1 * mosaicWidth flat3 + 1)"
    using flat3_slope by (simp_all add: SLOPE_RANGES_def)
  have c: "color (SLOPE_RANGES ! 0) = ''#2ecc71''"
    by (simp add: SLOPE_RANGES_def)
  have "(case chroma_rgb ''#2ecc71'' of (r, g, b) \<Rightarrow> [of_nat r, of_nat g, of_nat b, 210])
      = [46, 204, 113, 210 :: 8 word]"
    by (simp add: hex_digit_def)
  with classification_first_match[OF flat3_facts(1) _ flat3_facts(2) _ flat3_facts(3) g i]
    flat3_facts(1-3) g i(1,2) c
  show ?thesis by simp
qed

subsection \<open>The fallback colour\<close>

text \<open>
  Claim C10, as stated, says that the fallback colour \<open>#00000000\<close> is never the colour used
  for an interior pixel that the nodata guard lets through. Take the three-by-three raster
  at 100 m with \<^verbatim>\<open>NaN\<close> north of the centre pixel. No neighbour of the centre pixel is
  below \<open>-10000\<close>, since a comparison with \<^verbatim>\<open>NaN\<close> is false, so the guard lets the pixel
  through; its slope is \<^verbatim>\<open>NaN\<close>, which is in no class, the colour stays the fallback, and
  the bytes written are 0, 0, 0 and alpha 210.
\<close>

theorem fallback_color_counterexample:
  "length nan3 = mosaicWidth flat3 * mosaicHeight flat3 \<and>
   1 < mosaicHeight flat3 - 1 \<and> 1 < mosaicWidth flat3 - 1 \<and>
   zN_num flat3 nan3 1 1 = NaN \<and>
   \<not> nodata_num flat3 nan3 1 1 \<and>
   fst (computeSlope_num flat3 nan3) ! (1 * mosaicWidth flat3 + 1) = NaN \<and>
   classify_num (fst (computeSlope_num flat3 nan3) ! (1 * mosaicWidth flat3 + 1)) = ''#00000000'' \<and>
   rgbaAt (snd (computeSlope_num flat3 nan3)) (1 * mosaicWidth flat3 + 1) = [0, 0, 0, 210]"
proof -
  have nd: "\<not> nodata_num flat3 nan3 1 1"
    using nan3_facts(2-5) by (simp add: nodata_num_def)
  have s: "pixelSlope_num flat3 nan3 1 1 = NaN"
    using nan3_facts(2-5) flat3_facts(8,9) by (simp add: pixelSlope_num_def num_sub_def Let_def)
  have v: "fst (computeSlope_num flat3 nan3) ! (1 * mosaicWidth flat3 + 1) = NaN"
    using slope_num_at_interior[of 1 flat3 1 nan3] flat3_facts(2,3) nan3_facts(1) nd s by simp
  have "pixelColor_num flat3 nan3 1 1 = (0, 0, 0, 210)"
    unfolding pixelColor_num_def s classify_num_NaN by (simp add: hex_digit_def)
  then have "rgbaAt (snd (computeSlope_num flat3 nan3)) (1 * mosaicWidth flat3 + 1) = [0, 0, 0, 210]"
    using rgbaAt_num_interior[of 1 flat3 1 nan3] flat3_facts(2,3) nan3_facts(1) nd by simp
  then show ?thesis
    using nan3_facts(1,2) flat3_facts(2,3) nd v by (simp add: classify_num_NaN)
qed

text \<open>
  Claim C10, amended. For an interior pixel whose four neighbour samples are finite numbers
  at or above \<open>-10000\<close>, in a raster whose cell sizes are not zero, the stored slope is a
  finite number that is at least 0 and at most 90, hence at most the last breakpoint 999;
  the classification loop therefore stops at some entry of the table, the colour it yields
  is not the initial \<open>#00000000\<close>, and the pixel's bytes are those of the colour it yields
  with alpha 210.
\<close>

theorem fallback_color_unused:
  assumes "length d = mosaicWidth m * mosaicHeight m"
    and "0 < y" and "y < mosaicHeight m - 1" and "0 < x" and "x < mosaicWidth m - 1"
    and "zN_num m d y x = Num n" and "zS_num m d y x = Num s"
    and "zE_num m d y x = Num e" and "zW_num m d y x = Num w"
    and "- 10000 \<le> n" and "- 10000 \<le> s" and "- 10000 \<le> e" and "- 10000 \<le> w"
    and "cellSizeX m \<noteq> 0" and "cellSizeY m \<noteq> 0"
  shows "\<exists>v. fst (computeSlope_num m d) ! (y * mosaicWidth m + x) = Num v \<and>
           0 \<le> v \<and> v \<le> 90 \<and> v \<le> rmax (last SLOPE_RANGES) \<and>
           rmax (last SLOPE_RANGES) = 999 \<and>
           (\<exists>i<length SLOPE_RANGES. classify_num (Num v) = color (SLOPE_RANGES ! i)) \<and>
           classify_num (Num v) \<noteq> ''#00000000'' \<and>
           rgbaAt (snd (computeSlope_num m d)) (y * mosaicWidth m + x) =
             (case chroma_rgb (classify_num (Num v)) of
                (r, g, b) \<Rightarrow> [of_nat r, of_nat g, of_nat b, 210])"
proof -
  define v where "v = arctan (sqrt (((e - w) / (2 * cellSizeX m))\<^sup>2 +
      ((n - s) / (2 * cellSizeY m))\<^sup>2)) * (180 / pi)"
  have nd: "\<not> nodata_num m d y x"
    using assms(10-13) by (simp add: nodata_num_def assms(6-9))
  have ps: "pixelSlope_num m d y x = Num v"
    unfolding v_def using assms(6-9,14,15) by (rule pixelSlope_num_finite)
  have sv: "fst (computeSlope_num m d) ! (y * mosaicWidth m + x) = Num v"
    using slope_num_at_interior[OF assms(2-5,1)] nd ps by simp
  have b: "0 \<le> v" "v < 90"
    unfolding v_def by (rule slope_degrees_range, simp)+
  have l: "rmax (last SLOPE_RANGES) = 999" "SLOPE_RANGES \<noteq> []"
    by (simp_all add: SLOPE_RANGES_def)
  have le: "v \<le> rmax (last SLOPE_RANGES)"
    using b(2) l(1) by simp
  obtain i where i: "i < length SLOPE_RANGES" "classify v = color (SLOPE_RANGES ! i)"
    unfolding classify_def using classify_loop_hit[OF le l(2)] by blast
  have ne: "classify v \<noteq> ''#00000000''"
    using i SLOPE_RANGES_colors by simp
  have "rgbaAt (snd (computeSlope_num m d)) (y * mosaicWidth m + x) =
      (case pixelColor_num m d y x of (c0, c1, c2, c3) \<Rightarrow> [c0, c1, c2, c3])"
    using assms(2-5,1) nd by (rule rgbaAt_num_interior)
  then have r: "rgbaAt (snd (computeSlope_num m d)) (y * mosaicWidth m + x) =
      (case chroma_rgb (classify v) of (r, g, b) \<Rightarrow> [of_nat r, of_nat g, of_nat b, 210])"
    by (simp add: pixelColor_num_def ps classify_num_Num split: prod.splits)
  have "v \<le> 90" using b(2) by simp
  then show ?thesis
    using sv b(1) le l(1) i ne r unfolding classify_num_Num by blast
qed

theorem fallback_color_unused_witness:
  "length flat3_num = mosaicWidth flat3 * mosaicHeight flat3 \<and>
   1 < mosaicHeight flat3 - 1 \<and> 1 < mosaicWidth flat3 - 1 \<and>
   zN_num flat3 flat3_num 1 1 = Num 100 \<and> zS_num flat3 flat3_num 1 1 = Num 100 \<and>
   zE_num flat3 flat3_num 1 1 = Num 100 \<and> zW_num flat3 flat3_num 1 1 = Num 100 \<and>
   cellSizeX flat3 \<noteq> 0 \<and> cellSizeY flat3 \<noteq> 0 \<and>
   (\<exists>v. fst (computeSlope_num flat3 flat3_num) ! (1 * mosaicWidth flat3 + 1) = Num v \<and>
        v \<le> 90 \<and> classify_num (Num v) \<noteq> ''#00000000'')"
proof -
  have g: "- 10000 \<le> (100::real)" by simp
  from fallback_color_unused[OF flat3_num_facts(1) _ flat3_facts(2) _ flat3_facts(3)
      flat3_num_facts(2-5) g g g g flat3_facts(8,9)]
  obtain v where "fst (computeSlope_num flat3 flat3_num) ! (1 * mosaicWidth flat3 + 1) = Num v"
    "v \<le> 90" "classify_num (Num v) \<noteq> ''#00000000''"
    by auto
  then show ?thesis
    using flat3_num_facts flat3_facts(2,3,8,9) by blast
qed

subsection \<open>Partial tile failure\<close>

text \<open>
  Claim C5. With tiles of 512 by 512 samples: if at least one requested tile is fetched,
  \<open>assembleMosaic\<close> returns a mosaic (it does not fail) of the full extent of the tile grid,
  \<open>(xMax - xMin + 1) * 512\<close> by \<open>(yMax - yMin + 1) * 512\<close> with one cell per pixel, in which
  sample \<open>(r, c)\<close> of every fetched tile sits at row \<open>(ty - yMin) * 512 + r\<close> and column
  \<open>(tx - xMin) * 512 + c\<close>, and every cell of a tile that failed is 0. If no requested tile
  is fetched, the result is the error \<open>NoElevationData\<close>.
\<close>

theorem partial_tile_failure:
  assumes "xMin = lng2tile (west b) TILE_ZOOM" and "xMax = lng2tile (east b) TILE_ZOOM"
    and "yMin = lat2tile (north b) TILE_ZOOM" and "yMax = lat2tile (south b) TILE_ZOOM"
    and "w = nat ((xMax - xMin + 1) * int TILE_SIZE)"
    and "h = nat ((yMax - yMin + 1) * int TILE_SIZE)"
    and "\<forall>t d tw th. fetch t = Some (d, tw, th) \<longrightarrow> length d = TILE_SIZE * TILE_SIZE"
  shows "((\<exists>t\<in>set (tilesToFetch xMin xMax yMin yMax). fetch t \<noteq> None) \<longrightarrow>
            (\<exists>m. assembleMosaic fetch b = Inr m \<and>
                 mosaicWidth m = w \<and> mosaicHeight m = h \<and> length (mosaicData m) = w * h \<and>
                 (\<forall>t\<in>set (tilesToFetch xMin xMax yMin yMax). \<forall>r<TILE_SIZE. \<forall>c<TILE_SIZE.
                    mosaicData m ! ((nat (ty t - yMin) * TILE_SIZE + r) * w +
                                    (nat (tx t - xMin) * TILE_SIZE + c)) =
                    (case fetch t of None \<Rightarrow> 0 | Some (d, tw, th) \<Rightarrow> d ! (r * TILE_SIZE + c))))) \<and>
         ((\<forall>t\<in>set (tilesToFetch xMin xMax yMin yMax). fetch t = None) \<longrightarrow>
            assembleMosaic fetch b = Inl NoElevationData)"
proof (intro conjI impI)
  assume "\<exists>t\<in>set (tilesToFetch xMin xMax yMin yMax). fetch t \<noteq> None"
  then have ne: "validTiles fetch b \<noteq> []"
    by (simp add: validTiles_nonempty_iff assms(1-4))
  let ?m = "\<lparr>mosaicWidth = w, mosaicHeight = h,
      mosaicData = fold (fill_tile xMin yMin (int w)) (validTiles fetch b) (replicate (w * h) 0),
      mosaicNorth = tile2lat yMin TILE_ZOOM, mosaicWest = tile2lng xMin TILE_ZOOM,
      mosaicSouth = tile2lat (yMax + 1) TILE_ZOOM, mosaicEast = tile2lng (xMax + 1) TILE_ZOOM\<rparr>"
  have a: "assembleMosaic fetch b = Inr ?m"
    using assembleMosaic_Inr[OF ne assms(1-4)] by (simp add: assms(5,6))
  have gs: "\<forall>v\<in>set (validTiles fetch b). xMin \<le> tx v \<and> yMin \<le> ty v"
    using validTiles_inGrid[of _ fetch b] by (auto simp: assms(1-4) inGrid_def)
  have l: "length (mosaicData ?m) = w * h"
    using fold_fill_length[OF gs] by simp
  have "\<forall>t\<in>set (tilesToFetch xMin xMax yMin yMax). \<forall>r<TILE_SIZE. \<forall>c<TILE_SIZE.
      mosaicData ?m ! ((nat (ty t - yMin) * TILE_SIZE + r) * w + (nat (tx t - xMin) * TILE_SIZE + c)) =
      (case fetch t of None \<Rightarrow> 0 | Some (d, tw, th) \<Rightarrow> d ! (r * TILE_SIZE + c))"
    using assembled_cell[OF assms(1-6), of _ _ _ fetch] by (simp add: tileCell_def)
  then show "\<exists>m. assembleMosaic fetch b = Inr m \<and>
      mosaicWidth m = w \<and> mosaicHeight m = h \<and> length (mosaicData m) = w * h \<and>
      (\<forall>t\<in>set (tilesToFetch xMin xMax yMin yMax). \<forall>r<TILE_SIZE. \<forall>c<TILE_SIZE.
         mosaicData m ! ((nat (ty t - yMin) * TILE_SIZE + r) * w + (nat (tx t - xMin) * TILE_SIZE + c)) =
         (case fetch t of None \<Rightarrow> 0 | Some (d, tw, th) \<Rightarrow> d ! (r * TILE_SIZE + c)))"
    using a l by (intro exI[of _ ?m]) simp
next
  assume "\<forall>t\<in>set (tilesToFetch xMin xMax yMin yMax). fetch t = None"
  then have "validTiles fetch b = []"
    using validTiles_nonempty_iff[of fetch b] by (simp add: assms(1-4))
  then show "assembleMosaic fetch b = Inl NoElevationData"
    by (rule assembleMosaic_Inl)
qed

theorem partial_tile_failure_witness:
  "\<lparr>tx = 2048, ty = 2048, tz = TILE_ZOOM\<rparr> \<in> set (tilesToFetch 2048 2049 2048 2048) \<and>
   \<lparr>tx = 2049, ty = 2048, tz = TILE_ZOOM\<rparr> \<in> set (tilesToFetch 2048 2049 2048 2048) \<and>
   partialFetch \<lparr>tx = 2048, ty = 2048, tz = TILE_ZOOM\<rparr> \<noteq> None \<and>
   partialFetch \<lparr>tx = 2049, ty = 2048, tz = TILE_ZOOM\<rparr> = None \<and>
   (\<exists>m. assembleMosaic partialFetch equatorBox = Inr m \<and>
        mosaicWidth m = 2 * TILE_SIZE \<and> mosaicHeight m = TILE_SIZE \<and>
        mosaicData m ! 0 = 100 \<and> mosaicData m ! TILE_SIZE = 0) \<and>
   assembleMosaic (\<lambda>t. None) equatorBox = Inl NoElevationData"
proof -
  let ?a = "\<lparr>tx = 2048, ty = 2048, tz = TILE_ZOOM\<rparr>"
  let ?b = "\<lparr>tx = 2049, ty = 2048, tz = TILE_ZOOM\<rparr>"
  have t: "?a \<in> set (tilesToFetch 2048 2049 2048 2048)" "?b \<in> set (tilesToFetch 2048 2049 2048 2048)"
    by (simp_all add: set_tilesToFetch inGrid_def)
  have f: "partialFetch ?a = Some (replicate (TILE_SIZE * TILE_SIZE) 100, TILE_SIZE, TILE_SIZE)"
    "partialFetch ?b = None"
    by (simp_all add: partialFetch_def)
  have s: "\<forall>t d tw th. partialFetch t = Some (d, tw, th) \<longrightarrow> length d = TILE_SIZE * TILE_SIZE"
    by (auto simp: partialFetch_def split: if_splits)
  have w: "2 * TILE_SIZE = nat ((2049 - 2048 + 1) * int TILE_SIZE)"
    "TILE_SIZE = nat ((2048 - 2048 + 1) * int TILE_SIZE)"
    by simp_all
  have ex: "\<exists>t\<in>set (tilesToFetch 2048 2049 2048 2048). partialFetch t \<noteq> None"
    using t(1) f(1) by force
  from partial_tile_failure[OF equatorBox_range(1,2,3,4)[symmetric] w s] ex
  obtain m where m: "assembleMosaic partialFetch equatorBox = Inr m"
      "mosaicWidth m = 2 * TILE_SIZE" "mosaicHeight m = TILE_SIZE"
      and cells: "\<forall>t\<in>set (tilesToFetch 2048 2049 2048 2048). \<forall>r<TILE_SIZE. \<forall>c<TILE_SIZE.
        mosaicData m ! ((nat (ty t - 2048) * TILE_SIZE + r) * (2 * TILE_SIZE) +
                        (nat (tx t - 2048) * TILE_SIZE + c)) =
        (case partialFetch t of None \<Rightarrow> 0 | Some (d, tw, th) \<Rightarrow> d ! (r * TILE_SIZE + c))"
    by blast
  have "mosaicData m ! 0 = 100"
    using cells[rule_format, OF t(1) TILE_SIZE_pos TILE_SIZE_pos] f(1) TILE_SIZE_pos by simp
  moreover have "mosaicData m ! TILE_SIZE = 0"
    using cells[rule_format, OF t(2) TILE_SIZE_pos TILE_SIZE_pos] f(2) by simp
  moreover have "assembleMosaic (\<lambda>t. None) equatorBox = Inl NoElevationData"
    using partial_tile_failure[OF equatorBox_range(1,2,3,4)[symmetric] w, of "\<lambda>t. None"]
    by simp
  ultimately show ?thesis using t f m by auto
qed

subsection \<open>Geographic bounds of the mosaic\<close>

text \<open>
  Claim C4. For every query box for which a mosaic is assembled, the bounds of the mosaic
  come from the tile indices: north is \<open>tile2lat yMin\<close>, west is \<open>tile2lng xMin\<close>, south is
  \<open>tile2lat (yMax + 1)\<close>, east is \<open>tile2lng (xMax + 1)\<close>, and the pixel sizes are the
  differences divided by the pixel extent. The west bound is at or west of the query's
  west edge and the east bound is strictly east of the query's east edge, so the bounds
  differ from the query box, whether or not the box is aligned to tile edges.
\<close>

theorem mosaic_bounds_from_tiles:
  assumes "assembleMosaic fetch b = Inr m"
    and "xMin = lng2tile (west b) TILE_ZOOM" and "xMax = lng2tile (east b) TILE_ZOOM"
    and "yMin = lat2tile (north b) TILE_ZOOM" and "yMax = lat2tile (south b) TILE_ZOOM"
  shows "mosaicNorth m = tile2lat yMin TILE_ZOOM \<and>
         mosaicWest m = tile2lng xMin TILE_ZOOM \<and>
         mosaicSouth m = tile2lat (yMax + 1) TILE_ZOOM \<and>
         mosaicEast m = tile2lng (xMax + 1) TILE_ZOOM \<and>
         degPerPixelX m = (mosaicEast m - mosaicWest m) / real (mosaicWidth m) \<and>
         degPerPixelY m = (mosaicNorth m - mosaicSouth m) / real (mosaicHeight m) \<and>
         mosaicWidth m = nat ((xMax - xMin + 1) * int TILE_SIZE) \<and>
         mosaicHeight m = nat ((yMax - yMin + 1) * int TILE_SIZE) \<and>
         mosaicWest m \<le> west b \<and> east b < mosaicEast m \<and>
         (mosaicNorth m, mosaicSouth m, mosaicEast m, mosaicWest m) \<noteq>
           (north b, south b, east b, west b)"
proof -
  note c = assembleMosaic_cases[OF assms]
  have b: "mosaicNorth m = tile2lat yMin TILE_ZOOM" "mosaicSouth m = tile2lat (yMax + 1) TILE_ZOOM"
    "mosaicWest m = tile2lng xMin TILE_ZOOM" "mosaicEast m = tile2lng (xMax + 1) TILE_ZOOM"
    "mosaicWidth m = nat ((xMax - xMin + 1) * int TILE_SIZE)"
    "mosaicHeight m = nat ((yMax - yMin + 1) * int TILE_SIZE)"
    unfolding c(3) by simp_all
  have w: "mosaicWest m \<le> west b"
    unfolding b assms(2) by (rule lng2tile_bracket)
  have e: "east b < mosaicEast m"
    unfolding b assms(3) by (rule lng2tile_bracket)
  then have "(mosaicNorth m, mosaicSouth m, mosaicEast m, mosaicWest m) \<noteq>
      (north b, south b, east b, west b)"
    by simp
  then show ?thesis
    using b w e by (simp add: degPerPixelX_def degPerPixelY_def)
qed

theorem mosaic_bounds_from_tiles_witness:
  "(\<exists>m. assembleMosaic partialFetch equatorBox = Inr m \<and>
        mosaicNorth m = tile2lat 2048 TILE_ZOOM \<and> mosaicWest m = tile2lng 2048 TILE_ZOOM \<and>
        mosaicSouth m = tile2lat 2049 TILE_ZOOM \<and> mosaicEast m = tile2lng 2050 TILE_ZOOM \<and>
        east equatorBox < mosaicEast m)"
proof -
  have "validTiles partialFetch equatorBox \<noteq> []"
    unfolding validTiles_nonempty_iff equatorBox_range
    by (rule bexI[of _ "\<lparr>tx = 2048, ty = 2048, tz = TILE_ZOOM\<rparr>"])
      (simp_all add: partialFetch_def set_tilesToFetch inGrid_def)
  then obtain m where m: "assembleMosaic partialFetch equatorBox = Inr m"
    using assembleMosaic_Inr[OF _ refl refl refl refl] by blast
  from mosaic_bounds_from_tiles[OF m equatorBox_range[symmetric]] m
  show ?thesis by auto
qed

subsection \<open>The world file\<close>

text \<open>
  Claim C7. The world file has exactly six lines, in this order: \<open>pixelW\<close>, 0, 0,
  \<open>- pixelH\<close>, \<open>west + pixelW / 2\<close> and \<open>north - pixelH / 2\<close>, the four computed values printed
  with twelve decimals. In the example of the claim the origin Y 49.9995 is
  \<open>north - pixelH / 2\<close> for \<open>north = 50\<close>, so its pixel height is 0.001 like its pixel width:
  for \<open>pixelW = 0.001\<close>, \<open>pixelH = 0.001\<close>, \<open>west = 10\<close> and \<open>north = 50\<close> the origin X is
  10.0005 and the origin Y is 49.9995.
\<close>

theorem world_file_values:
  "tfwLines g =
     [toFixed (pixelW g) 12, ''0'', ''0'', toFixed (- pixelH g) 12,
      toFixed (gwest g + pixelW g / 2) 12, toFixed (gnorth g - pixelH g / 2) 12] \<and>
   length (tfwLines g) = 6 \<and>
   ulX g = gwest g + pixelW g / 2 \<and> ulY g = gnorth g - pixelH g / 2 \<and>
   (pixelW g = 1 / 1000 \<and> pixelH g = 1 / 1000 \<and> gwest g = 10 \<and> gnorth g = 50 \<longrightarrow>
      ulX g = 100005 / 10000 \<and> ulY g = 499995 / 10000 \<and>
      tfwContent g =
        ''0.001000000000'' @ [CHR 0x0A] @ ''0'' @ [CHR 0x0A] @ ''0'' @ [CHR 0x0A] @
        ''-0.001000000000'' @ [CHR 0x0A] @ ''10.000500000000'' @ [CHR 0x0A] @
        ''49.999500000000'')"
proof -
  have "tfwContent g =
        ''0.001000000000'' @ [CHR 0x0A] @ ''0'' @ [CHR 0x0A] @ ''0'' @ [CHR 0x0A] @
        ''-0.001000000000'' @ [CHR 0x0A] @ ''10.000500000000'' @ [CHR 0x0A] @
        ''49.999500000000''"
    if "pixelW g = 1 / 1000" "pixelH g = 1 / 1000" "gwest g = 10" "gnorth g = 50"
    unfolding tfwContent_def tfwLines_def ulX_def ulY_def that
    by (simp add: toFixed_milli toFixed_minus_milli toFixed_origin_x toFixed_origin_y)
  then show ?thesis
    by (simp add: tfwLines_def ulX_def ulY_def)
qed

theorem world_file_values_witness:
  "pixelW squareGeo = 1 / 1000 \<and> pixelH squareGeo = 1 / 1000 \<and> gwest squareGeo = 10 \<and>
   gnorth squareGeo = 50 \<and>
   ulX squareGeo = 100005 / 10000 \<and> ulY squareGeo = 499995 / 10000 \<and>
   tfwLines squareGeo ! 4 = ''10.000500000000'' \<and> tfwLines squareGeo ! 5 = ''49.999500000000''"
proof -
  have h: "pixelW squareGeo = 1 / 1000 \<and> pixelH squareGeo = 1 / 1000 \<and> gwest squareGeo = 10 \<and>
      gnorth squareGeo = 50"
    by (simp add: squareGeo_def)
  have "tfwLines squareGeo ! 4 = ''10.000500000000''" "tfwLines squareGeo ! 5 = ''49.999500000000''"
    using world_file_values[of squareGeo] h by (simp_all add: toFixed_origin_x toFixed_origin_y)
  then show ?thesis using world_file_values[of squareGeo] h by simp
qed

subsection \<open>Clipping and inner rings\<close>




end
